theory Spec2Isabelle
  imports Complex_Main
begin

section \<open>The park scheduler: input data\<close>

text \<open>
  \<^verbatim>\<open>optimize_park_scheduling(days, parks, companies)\<close> of \<^verbatim>\<open>park_scheduler.py\<close>
  builds a mixed-integer linear program with pulp, hands it to the CBC solver and prints
  the schedule. The development below embeds the construction of the program (lines 18 to
  88) and the printing of the solution (lines 93 to 102); the solver is a parameter.

  A day is a \<^verbatim>\<open>datetime.date\<close>; it is represented by its ordinal, so that
  \<^verbatim>\<open>d + timedelta(days=1)\<close> is \<open>d + 1\<close> and \<^verbatim>\<open>(d2 - d1).days\<close> is \<open>d2 - d1\<close>.
  A park and a company are the dictionaries of the source, with their keys as fields.

  Two behaviours of the libraries lie outside the embedding, so that \<open>build_model\<close>
  returns a model on some inputs on which the program raises. pulp refuses a second
  constraint under a name already used (a repeated day, two parks of one name), and
  \<^verbatim>\<open>datetime.date\<close> has a last day, beyond which the addition of line 73
  overflows. A statement about a built model covers those inputs as well.
\<close>

type_synonym day = int

record park =
  name :: string
  company :: string
  demanding :: bool
  cannot_visit_days :: "day list"
  must_visit_day :: "day option"
  days_to_avoid :: "day list"
  preferred_days :: "day list"

text \<open>The key \<^verbatim>\<open>"company"\<close> of a company dictionary is the field \<open>company_c\<close>.\<close>

record company_entry =
  company_c :: string
  number_of_days :: int

section \<open>The linear program\<close>

text \<open>
  The four families of pulp variables, named after the prefixes given to
  \<^verbatim>\<open>LpVariable.dicts\<close>. A variable is identified by the keys under which the
  nested dictionary holds it.
\<close>

datatype var =
    park_schedule string day
  | slack_6 string
  | slack_7 string string day day
  | slack_8 string string day day

text \<open>
  Affine expressions as the source writes them: a variable, a number, a sum of two
  expressions, a multiple, and \<^verbatim>\<open>pulp.lpSum\<close> of a list of variables.
\<close>

datatype expr =
    V var
  | N int
  | Add expr expr
  | Mul int expr
  | lpSum "var list"

fun eval :: "(var \<Rightarrow> real) \<Rightarrow> expr \<Rightarrow> real" where
  "eval a (V v) = a v"
| "eval a (N k) = of_int k"
| "eval a (Add e f) = eval a e + eval a f"
| "eval a (Mul k e) = of_int k * eval a e"
| "eval a (lpSum vs) = sum_list (map a vs)"

fun vars_of :: "expr \<Rightarrow> var list" where
  "vars_of (V v) = [v]"
| "vars_of (N k) = []"
| "vars_of (Add e f) = vars_of e @ vars_of f"
| "vars_of (Mul k e) = vars_of e"
| "vars_of (lpSum vs) = vs"

datatype sense = LE | EQ

text \<open>
  The name the source attaches to a constraint is a string made of a fixed sentence, the
  park names and the days; the label keeps the rule and those components, in the order
  in which the string has them.
\<close>

datatype label =
    Constraint_1 day
  | Constraint_2 string
  | Constraint_3 string day
  | Constraint_4 string day
  | Constraint_5 string day
  | Constraint_6 string "day list"
  | Constraint_7 string string day day
  | Constraint_8 string string day day

datatype constr = Constr (label: label) (lhs: expr) (sense: sense) (rhs: expr)

fun holds :: "(var \<Rightarrow> real) \<Rightarrow> constr \<Rightarrow> bool" where
  "holds a (Constr l e LE f) = (eval a e \<le> eval a f)"
| "holds a (Constr l e EQ f) = (eval a e = eval a f)"

text \<open>Rules 1 to 5 carry no slack variable: they are the hard constraints.\<close>

fun hard_label :: "label \<Rightarrow> bool" where
  "hard_label (Constraint_1 d) = True"
| "hard_label (Constraint_2 p) = True"
| "hard_label (Constraint_3 p d) = True"
| "hard_label (Constraint_4 p d) = True"
| "hard_label (Constraint_5 p d) = True"
| "hard_label (Constraint_6 p ds) = False"
| "hard_label (Constraint_7 p1 p2 d1 d2) = False"
| "hard_label (Constraint_8 p1 p2 d1 d2) = False"

definition hard :: "constr \<Rightarrow> bool" where
  "hard c = hard_label (label c)"

record problem =
  objective :: expr
  constraints :: "constr list"

section \<open>Errors and dictionary lookups\<close>

datatype error = KeyError

fun bind_e :: "error + 'a \<Rightarrow> ('a \<Rightarrow> error + 'b) \<Rightarrow> error + 'b" where
  "bind_e (Inl e) f = Inl e"
| "bind_e (Inr x) f = f x"

text \<open>Runs the steps in order and stops at the first one that raises.\<close>

fun sequence_e :: "(error + 'a) list \<Rightarrow> error + 'a list" where
  "sequence_e [] = Inr []"
| "sequence_e (m # ms) = bind_e m (\<lambda>x. bind_e (sequence_e ms) (\<lambda>xs. Inr (x # xs)))"

text \<open>
  \<^verbatim>\<open>LpVariable.dicts(prefix, (park_names, days), ...)\<close> is a dictionary over
  \<^verbatim>\<open>park_names\<close> of dictionaries over \<^verbatim>\<open>days\<close>: a lookup raises
  \<^verbatim>\<open>KeyError\<close> unless every key is in its list.
\<close>

definition variables :: "string list \<Rightarrow> day list \<Rightarrow> string \<Rightarrow> day \<Rightarrow> error + var" where
  "variables park_names days p d =
     (if p \<in> set park_names \<and> d \<in> set days then Inr (park_schedule p d) else Inl KeyError)"

definition slack_variables_6 :: "string list \<Rightarrow> string \<Rightarrow> error + var" where
  "slack_variables_6 park_names p =
     (if p \<in> set park_names then Inr (slack_6 p) else Inl KeyError)"

definition slack_variables_7 ::
  "string list \<Rightarrow> day list \<Rightarrow> string \<Rightarrow> string \<Rightarrow> day \<Rightarrow> day \<Rightarrow> error + var" where
  "slack_variables_7 park_names days p1 p2 d1 d2 =
     (if p1 \<in> set park_names \<and> p2 \<in> set park_names \<and> d1 \<in> set days \<and> d2 \<in> set days
      then Inr (slack_7 p1 p2 d1 d2) else Inl KeyError)"

section \<open>The model builder\<close>

text \<open>
  The objective (lines 36 to 38): the three penalties are 10000, and each
  \<^verbatim>\<open>lpSum\<close> ranges over all the keys of its dictionary.
\<close>

definition PENALTY_6 :: int where "PENALTY_6 = 10000"
definition PENALTY_7 :: int where "PENALTY_7 = 10000"
definition PENALTY_8 :: int where "PENALTY_8 = 10000"

definition objective_of :: "string list \<Rightarrow> day list \<Rightarrow> expr" where
  "objective_of park_names days =
     Add (Add (Mul PENALTY_6 (lpSum (map slack_6 park_names)))
              (Mul PENALTY_7 (lpSum (concat (map (\<lambda>p1. concat (map (\<lambda>p2. concat (map (\<lambda>d1.
                 map (\<lambda>d2. slack_7 p1 p2 d1 d2) days) days)) park_names)) park_names)))))
         (Mul PENALTY_8 (lpSum (concat (map (\<lambda>p1. concat (map (\<lambda>p2. concat (map (\<lambda>d1.
                 map (\<lambda>d2. slack_8 p1 p2 d1 d2) days) days)) park_names)) park_names))))"

text \<open>
  Constraints 1 and 2 (lines 40 to 46) look the variables up at keys taken from
  \<^verbatim>\<open>park_names\<close> and \<^verbatim>\<open>days\<close> themselves, so no lookup can raise.
\<close>

definition constraint_1 :: "string list \<Rightarrow> day list \<Rightarrow> constr list" where
  "constraint_1 park_names days =
     map (\<lambda>d. Constr (Constraint_1 d) (lpSum (map (\<lambda>p. park_schedule p d) park_names)) LE (N 1))
       days"

definition constraint_2 :: "string list \<Rightarrow> day list \<Rightarrow> constr list" where
  "constraint_2 park_names days =
     map (\<lambda>p. Constr (Constraint_2 p) (lpSum (map (\<lambda>d. park_schedule p d) days)) EQ (N 1))
       park_names"

text \<open>Constraints 3, 4 and 5 (lines 48 to 61) look up days that the park names.\<close>

definition constraint_3 :: "string list \<Rightarrow> day list \<Rightarrow> park list \<Rightarrow> error + constr list" where
  "constraint_3 park_names days parks =
     sequence_e (concat (map (\<lambda>p. map (\<lambda>d.
         bind_e (variables park_names days (name p) d)
           (\<lambda>v. Inr (Constr (Constraint_3 (name p) d) (V v) EQ (N 0))))
       (cannot_visit_days p)) parks))"

definition constraint_4 :: "string list \<Rightarrow> day list \<Rightarrow> park list \<Rightarrow> error + constr list" where
  "constraint_4 park_names days parks =
     sequence_e (concat (map (\<lambda>p.
         case must_visit_day p of
           None \<Rightarrow> []
         | Some d \<Rightarrow>
             [bind_e (variables park_names days (name p) d)
                (\<lambda>v. Inr (Constr (Constraint_4 (name p) d) (V v) EQ (N 1)))])
       parks))"

definition constraint_5 :: "string list \<Rightarrow> day list \<Rightarrow> park list \<Rightarrow> error + constr list" where
  "constraint_5 park_names days parks =
     sequence_e (concat (map (\<lambda>p. map (\<lambda>d.
         bind_e (variables park_names days (name p) d)
           (\<lambda>v. Inr (Constr (Constraint_5 (name p) d) (V v) EQ (N 0))))
       (days_to_avoid p)) parks))"

text \<open>
  Constraint 6 (lines 63 to 65): the statement builds the pair of the constraint and its
  name and does nothing with it; \<open>constraint_6\<close> is the list of the constraints so built.
\<close>

definition constraint_6 :: "string list \<Rightarrow> day list \<Rightarrow> park list \<Rightarrow> error + constr list" where
  "constraint_6 park_names days parks =
     sequence_e (map (\<lambda>p.
         bind_e (sequence_e (map (variables park_names days (name p)) (preferred_days p)))
           (\<lambda>vs. bind_e (slack_variables_6 park_names (name p))
           (\<lambda>s. Inr (Constr (Constraint_6 (name p) (preferred_days p))
                        (Add (lpSum vs) (V s)) EQ (N 1)))))
       parks)"

text \<open>
  Constraint 7 (lines 67 to 75). \<open>pair_7\<close> is the body of the innermost loop, with its
  six lookups in the order of evaluation.
\<close>

definition pair_7 :: "string list \<Rightarrow> day list \<Rightarrow> park \<Rightarrow> park \<Rightarrow> day \<Rightarrow> error + constr list" where
  "pair_7 park_names days p1 p2 d1 =
     (let d2 = d1 + 1 in
      bind_e (variables park_names days (name p1) d1) (\<lambda>x11.
      bind_e (variables park_names days (name p2) d2) (\<lambda>x22.
      bind_e (slack_variables_7 park_names days (name p1) (name p2) d1 d2) (\<lambda>s.
      bind_e (variables park_names days (name p1) d2) (\<lambda>x12.
      bind_e (variables park_names days (name p2) d1) (\<lambda>x21.
      bind_e (slack_variables_7 park_names days (name p1) (name p2) d1 d2) (\<lambda>s'.
      Inr [Constr (Constraint_7 (name p1) (name p2) d1 d2) (Add (V x11) (V x22)) LE (Add (N 1) (V s)),
           Constr (Constraint_7 (name p1) (name p2) d2 d1) (Add (V x12) (V x21)) LE (Add (N 1) (V s'))]
      )))))))"

definition constraint_7 :: "string list \<Rightarrow> day list \<Rightarrow> park list \<Rightarrow> error + constr list" where
  "constraint_7 park_names days parks =
     bind_e (sequence_e (concat (map (\<lambda>d1.
         concat (map (\<lambda>(idx, p1).
           if demanding p1
           then concat (map (\<lambda>p2. if demanding p2 then [pair_7 park_names days p1 p2 d1] else [])
                  (drop (idx + 1) parks))
           else [])
         (enumerate 0 (butlast parks))))
       (butlast days))))
     (\<lambda>css. Inr (concat css))"

text \<open>
  Constraint 8 (lines 77 to 88). Both days come from \<^verbatim>\<open>days\<close> and both names from
  \<^verbatim>\<open>parks\<close>, so no lookup can raise.
\<close>

definition pair_8 :: "park \<Rightarrow> park \<Rightarrow> day \<Rightarrow> day \<Rightarrow> constr list" where
  "pair_8 p1 p2 d1 d2 =
     [Constr (Constraint_8 (name p1) (name p2) d1 d2)
        (Add (V (park_schedule (name p1) d1)) (V (park_schedule (name p2) d2))) LE
        (Add (N 1) (V (slack_8 (name p1) (name p2) d1 d2))),
      Constr (Constraint_8 (name p1) (name p2) d2 d1)
        (Add (V (park_schedule (name p1) d2)) (V (park_schedule (name p2) d1))) LE
        (Add (N 1) (V (slack_8 (name p1) (name p2) d2 d1)))]"

definition constraint_8 :: "day list \<Rightarrow> park list \<Rightarrow> company_entry list \<Rightarrow> constr list" where
  "constraint_8 days parks companies =
     concat (map (\<lambda>c.
       concat (map (\<lambda>(idx, p1).
         if company_c c = company p1
         then concat (map (\<lambda>p2.
                if company_c c = company p2
                then concat (map (\<lambda>(idx2, d1).
                       concat (map (\<lambda>d2.
                         if (d2 - d1) + 1 > number_of_days c then pair_8 p1 p2 d1 d2 else [])
                       (drop (idx2 + 1) days)))
                     (enumerate 0 (butlast days)))
                else [])
              (drop (idx + 1) parks))
         else [])
       (enumerate 0 (butlast parks))))
     companies)"

text \<open>
  The program as it stands when the solver is called (line 91). The constraints built
  for rule 6 are bound and dropped, as in the source.
\<close>

definition build_model :: "day list \<Rightarrow> park list \<Rightarrow> company_entry list \<Rightarrow> error + problem" where
  "build_model days parks companies =
     (let park_names = map name parks in
      bind_e (constraint_3 park_names days parks) (\<lambda>c3.
      bind_e (constraint_4 park_names days parks) (\<lambda>c4.
      bind_e (constraint_5 park_names days parks) (\<lambda>c5.
      bind_e (constraint_6 park_names days parks) (\<lambda>c6.
      bind_e (constraint_7 park_names days parks) (\<lambda>c7.
      Inr \<lparr>objective = objective_of park_names days,
           constraints = constraint_1 park_names days @ constraint_2 park_names days @
                         c3 @ c4 @ c5 @ c7 @ constraint_8 days parks companies\<rparr>))))))"

section \<open>The solution extractor\<close>

text \<open>
  Lines 93 to 102. \<^verbatim>\<open>varValue\<close> is \<^verbatim>\<open>None\<close> or a number; the test
  \<^verbatim>\<open>if(value)\<close> passes for a number other than zero. The result is the list of the
  lines printed, as pairs of a day and a park name.
\<close>

definition truthy :: "real option \<Rightarrow> bool" where
  "truthy v = (case v of None \<Rightarrow> False | Some r \<Rightarrow> r \<noteq> 0)"

definition extract_solution :: "int \<Rightarrow> (var \<Rightarrow> real option) \<Rightarrow> day list \<Rightarrow> park list \<Rightarrow> (day \<times> string) list" where
  "extract_solution status varValue days parks =
     (if status \<ge> 0
      then concat (map (\<lambda>x. concat (map (\<lambda>y.
             if truthy (varValue (park_schedule (name y) x)) then [(x, name y)] else [])
           parks)) days)
      else [])"

text \<open>
  The whole function, with the solver as a parameter that maps the program to a status
  and the values of the variables.
\<close>

definition optimize_park_scheduling ::
  "(problem \<Rightarrow> int \<times> (var \<Rightarrow> real option)) \<Rightarrow> day list \<Rightarrow> park list \<Rightarrow> company_entry list
     \<Rightarrow> error + int \<times> (day \<times> string) list" where
  "optimize_park_scheduling solve days parks companies =
     bind_e (build_model days parks companies)
       (\<lambda>m. case solve m of (status, varValue) \<Rightarrow> Inr (status, extract_solution status varValue days parks))"

section \<open>Notions used in the statements\<close>

text \<open>
  The two constraints that \<open>pair_7\<close> returns when its lookups succeed.
\<close>

definition rule_7 :: "string \<Rightarrow> string \<Rightarrow> day \<Rightarrow> constr list" where
  "rule_7 n1 n2 d1 =
     [Constr (Constraint_7 n1 n2 d1 (d1 + 1))
        (Add (V (park_schedule n1 d1)) (V (park_schedule n2 (d1 + 1)))) LE
        (Add (N 1) (V (slack_7 n1 n2 d1 (d1 + 1)))),
      Constr (Constraint_7 n1 n2 (d1 + 1) d1)
        (Add (V (park_schedule n1 (d1 + 1))) (V (park_schedule n2 d1))) LE
        (Add (N 1) (V (slack_7 n1 n2 d1 (d1 + 1))))]"

text \<open>
  The two inner loops of constraint 7 at one day, and the inner loops of constraint 8 at
  one company: the same terms as in \<open>constraint_7\<close> and \<open>constraint_8\<close>, under names.
\<close>

definition items_7 :: "string list \<Rightarrow> day list \<Rightarrow> park list \<Rightarrow> day \<Rightarrow> (error + constr list) list" where
  "items_7 pn days parks d1 =
     concat (map (\<lambda>(idx, p1).
           if demanding p1
           then concat (map (\<lambda>p2. if demanding p2 then [pair_7 pn days p1 p2 d1] else [])
                  (drop (idx + 1) parks))
           else [])
         (enumerate 0 (butlast parks)))"

definition days_8 :: "company_entry \<Rightarrow> park \<Rightarrow> park \<Rightarrow> day list \<Rightarrow> constr list" where
  "days_8 c p1 p2 days =
     concat (map (\<lambda>(idx2, d1).
       concat (map (\<lambda>d2.
         if (d2 - d1) + 1 > number_of_days c then pair_8 p1 p2 d1 d2 else [])
       (drop (idx2 + 1) days)))
     (enumerate 0 (butlast days)))"

definition parks_8 :: "company_entry \<Rightarrow> day list \<Rightarrow> park list \<Rightarrow> constr list" where
  "parks_8 c days parks =
     concat (map (\<lambda>(idx, p1).
         if company_c c = company p1
         then concat (map (\<lambda>p2.
                if company_c c = company p2 then days_8 c p1 p2 days else [])
              (drop (idx + 1) parks))
         else [])
       (enumerate 0 (butlast parks)))"

text \<open>
  The pairs that the loops visit: positions \<open>i < j\<close> of two demanding parks, of two parks
  of a company, and of two days whose inclusive span exceeds the company's window.
\<close>

definition demanding_pair :: "park list \<Rightarrow> nat \<Rightarrow> nat \<Rightarrow> bool" where
  "demanding_pair parks i j \<longleftrightarrow>
     i < j \<and> j < length parks \<and> demanding (parks ! i) \<and> demanding (parks ! j)"

definition company_pair :: "company_entry \<Rightarrow> park list \<Rightarrow> nat \<Rightarrow> nat \<Rightarrow> bool" where
  "company_pair c parks i j \<longleftrightarrow>
     i < j \<and> j < length parks \<and> company_c c = company (parks ! i) \<and> company_c c = company (parks ! j)"

definition window_pair :: "company_entry \<Rightarrow> day list \<Rightarrow> nat \<Rightarrow> nat \<Rightarrow> bool" where
  "window_pair c days k l \<longleftrightarrow>
     k < l \<and> l < length days \<and> (days ! l - days ! k) + 1 > number_of_days c"

text \<open>
  Every day that the builder looks up is a key of the dictionaries: the days that the parks
  name, and the successor of every non-final day when two parks are demanding.
\<close>

definition keys_ok :: "day list \<Rightarrow> park list \<Rightarrow> bool" where
  "keys_ok days parks \<longleftrightarrow>
     list_all (\<lambda>p. list_all (\<lambda>d. d \<in> set days) (cannot_visit_days p)) parks \<and>
     list_all (\<lambda>p. case must_visit_day p of None \<Rightarrow> True | Some d \<Rightarrow> d \<in> set days) parks \<and>
     list_all (\<lambda>p. list_all (\<lambda>d. d \<in> set days) (days_to_avoid p)) parks \<and>
     list_all (\<lambda>p. list_all (\<lambda>d. d \<in> set days) (preferred_days p)) parks \<and>
     (length (filter demanding parks) < 2 \<or> list_all (\<lambda>d1. d1 + 1 \<in> set days) (butlast days))"

text \<open>
  The rule to which a constraint belongs, read off its name.
\<close>

fun rule_number :: "label \<Rightarrow> nat" where
  "rule_number (Constraint_1 d) = 1"
| "rule_number (Constraint_2 p) = 2"
| "rule_number (Constraint_3 p d) = 3"
| "rule_number (Constraint_4 p d) = 4"
| "rule_number (Constraint_5 p d) = 5"
| "rule_number (Constraint_6 p ds) = 6"
| "rule_number (Constraint_7 p1 p2 d1 d2) = 7"
| "rule_number (Constraint_8 p1 p2 d1 d2) = 8"

text \<open>
  Values of the variables that satisfy every hard constraint of a program, and values that
  put every assignment variable of the input at 0 or 1.
\<close>

definition satisfies_hard :: "(var \<Rightarrow> real) \<Rightarrow> problem \<Rightarrow> bool" where
  "satisfies_hard a m = list_all (holds a) (filter hard (constraints m))"

definition binary_x :: "(var \<Rightarrow> real) \<Rightarrow> park list \<Rightarrow> day list \<Rightarrow> bool" where
  "binary_x a parks days =
     list_all (\<lambda>p. list_all (\<lambda>d. a (park_schedule (name p) d) = 0 \<or> a (park_schedule (name p) d) = 1)
       days) parks"

text \<open>
  The check that the specification asks of the extractor: every park appears exactly once
  in the schedule and no day appears twice.
\<close>

definition schedule_invariant :: "park list \<Rightarrow> (day \<times> string) list \<Rightarrow> bool" where
  "schedule_invariant parks out \<longleftrightarrow>
     list_all (\<lambda>p. count_list (map snd out) (name p) = 1) parks \<and> distinct (map fst out)"

subsection \<open>Inputs and values for the examples\<close>

definition plain_park :: park where
  "plain_park =
     \<lparr>name = ''Aquatica'', company = ''Sea World'', demanding = False, cannot_visit_days = [],
      must_visit_day = None, days_to_avoid = [], preferred_days = []\<rparr>"

definition demanding_a :: park where
  "demanding_a =
     \<lparr>name = ''Magic Kingdom'', company = ''Disney'', demanding = True, cannot_visit_days = [],
      must_visit_day = None, days_to_avoid = [], preferred_days = []\<rparr>"

definition demanding_b :: park where
  "demanding_b =
     \<lparr>name = ''Hollywood Studios'', company = ''Disney'', demanding = True, cannot_visit_days = [],
      must_visit_day = None, days_to_avoid = [], preferred_days = []\<rparr>"

definition disney_a :: park where
  "disney_a =
     \<lparr>name = ''Magic Kingdom'', company = ''Disney'', demanding = False, cannot_visit_days = [],
      must_visit_day = None, days_to_avoid = [], preferred_days = []\<rparr>"

definition disney_b :: park where
  "disney_b =
     \<lparr>name = ''Epcot'', company = ''Disney'', demanding = False, cannot_visit_days = [],
      must_visit_day = None, days_to_avoid = [], preferred_days = []\<rparr>"


definition preferring_park :: park where
  "preferring_park =
     \<lparr>name = ''Epcot'', company = ''Disney'', demanding = False, cannot_visit_days = [],
      must_visit_day = None, days_to_avoid = [], preferred_days = [1]\<rparr>"



definition disney :: company_entry where
  "disney = \<lparr>company_c = ''Disney'', number_of_days = 2\<rparr>"


definition all_zero :: "var \<Rightarrow> real" where
  "all_zero v = 0"


definition one_park_a_day :: "var \<Rightarrow> real" where
  "one_park_a_day v =
     (case v of
        park_schedule p d \<Rightarrow>
          if (p = ''Magic Kingdom'' \<and> d = 1) \<or> (p = ''Epcot'' \<and> d = 2) then 1 else 0
      | _ \<Rightarrow> 0)"

definition reports_infeasible :: "problem \<Rightarrow> int \<times> (var \<Rightarrow> real option)" where
  "reports_infeasible m = (- 1, (\<lambda>v. None))"

section \<open>Properties of the builder\<close>

subsection \<open>Sequencing and the loops over pairs\<close>

lemma sequence_e_eq:
  "sequence_e ms = (if list_ex isl ms then Inl KeyError else Inr (map projr ms))"
proof (induction ms)
  case Nil
  then show ?case by simp
next
  case (Cons m ms)
  show ?case
  proof (cases m)
    case (Inl e)
    then show ?thesis by (cases e) simp
  next
    case (Inr x)
    then show ?thesis using Cons by simp
  qed
qed

lemma sequence_e_isl: "isl (sequence_e ms) \<longleftrightarrow> (\<exists>m\<in>set ms. isl m)"
  by (simp add: sequence_e_eq list_ex_iff)

lemma sequence_e_Inr_set:
  assumes "sequence_e ms = Inr xs"
  shows "x \<in> set xs \<longleftrightarrow> Inr x \<in> set ms"
proof -
  from assms have no: "\<not> list_ex isl ms" and xs: "xs = map projr ms"
    by (simp_all add: sequence_e_eq split: if_splits)
  from no have eq: "\<And>m. m \<in> set ms \<Longrightarrow> m = Inr (projr m)"
    by (simp add: list_ex_iff)
  show ?thesis
  proof
    assume "x \<in> set xs"
    then obtain m where "m \<in> set ms" "x = projr m"
      unfolding xs by auto
    then show "Inr x \<in> set ms" using eq [of m] by simp
  next
    assume "Inr x \<in> set ms"
    then have "projr (Inr x :: error + 'a) \<in> set xs"
      unfolding xs by (simp only: set_map imageI)
    then show "x \<in> set xs" by simp
  qed
qed

lemma error_eq: "(e::error) = KeyError"
  by (cases e) simp

lemma isl_bind_e: "isl (bind_e m f) \<longleftrightarrow> isl m \<or> isl (f (projr m))"
  by (cases m) simp_all

lemma bind_e_Inr: "bind_e m f = Inr y \<longleftrightarrow> (\<exists>x. m = Inr x \<and> f x = Inr y)"
  by (cases m) simp_all

lemma bind_variables:
  "p \<in> set park_names \<Longrightarrow>
     bind_e (variables park_names days p d) f =
       (if d \<in> set days then f (park_schedule p d) else Inl KeyError)"
  by (simp add: variables_def)

lemma bex_concat_map:
  "(\<exists>m\<in>set (concat (map G xs)). P m) \<longleftrightarrow> (\<exists>x\<in>set xs. \<exists>m\<in>set (G x). P m)"
  by auto

lemma in_concat_map:
  "m \<in> set (concat (map G xs)) \<longleftrightarrow> (\<exists>x\<in>set xs. m \<in> set (G x))"
  by auto

lemma in_enumerate_butlast:
  "(i, x) \<in> set (enumerate 0 (butlast xs)) \<longleftrightarrow> Suc i < length xs \<and> x = xs ! i"
  by (auto simp: in_set_enumerate_eq nth_butlast)

lemma in_set_drop:
  "y \<in> set (drop n xs) \<longleftrightarrow> (\<exists>j. n \<le> j \<and> j < length xs \<and> y = xs ! j)"
proof
  assume "y \<in> set (drop n xs)"
  then obtain k where k: "k < length xs - n" "y = drop n xs ! k"
    by (auto simp: in_set_conv_nth)
  then have "n \<le> n + k \<and> n + k < length xs \<and> y = xs ! (n + k)"
    by simp
  then show "\<exists>j. n \<le> j \<and> j < length xs \<and> y = xs ! j" by blast
next
  assume "\<exists>j. n \<le> j \<and> j < length xs \<and> y = xs ! j"
  then obtain j where j: "n \<le> j" "j < length xs" "y = xs ! j" by blast
  then have "j - n < length (drop n xs)" "drop n xs ! (j - n) = y"
    by simp_all
  then show "y \<in> set (drop n xs)"
    by (metis nth_mem)
qed

lemma in_pairs_loop:
  "m \<in> set (concat (map (\<lambda>(idx, p1).
       if P p1 then concat (map (\<lambda>p2. if Q p2 then G p1 p2 else []) (drop (idx + 1) xs)) else [])
     (enumerate 0 (butlast xs)))) \<longleftrightarrow>
   (\<exists>i j. i < j \<and> j < length xs \<and> P (xs ! i) \<and> Q (xs ! j) \<and> m \<in> set (G (xs ! i) (xs ! j)))"
  (is "?L \<longleftrightarrow> ?R")
proof
  assume ?L
  then obtain idx p1 where a: "(idx, p1) \<in> set (enumerate 0 (butlast xs))"
    and b: "m \<in> set (if P p1 then concat (map (\<lambda>p2. if Q p2 then G p1 p2 else []) (drop (idx + 1) xs)) else [])"
    unfolding in_concat_map by auto
  from a have i: "Suc idx < length xs" "p1 = xs ! idx"
    by (simp_all add: in_enumerate_butlast)
  from b have P: "P p1"
    and "m \<in> set (concat (map (\<lambda>p2. if Q p2 then G p1 p2 else []) (drop (idx + 1) xs)))"
    by (simp_all split: if_splits)
  then obtain p2 where c: "p2 \<in> set (drop (idx + 1) xs)" and d: "m \<in> set (if Q p2 then G p1 p2 else [])"
    unfolding in_concat_map by blast
  from c obtain j where j: "idx + 1 \<le> j" "j < length xs" "p2 = xs ! j"
    unfolding in_set_drop by blast
  from d have "Q p2" "m \<in> set (G p1 p2)"
    by (simp_all split: if_splits)
  with i j P have "idx < j \<and> j < length xs \<and> P (xs ! idx) \<and> Q (xs ! j) \<and> m \<in> set (G (xs ! idx) (xs ! j))"
    by simp
  then show ?R by blast
next
  assume ?R
  then obtain i j where ij: "i < j" "j < length xs" "P (xs ! i)" "Q (xs ! j)" "m \<in> set (G (xs ! i) (xs ! j))"
    by blast
  have a: "(i, xs ! i) \<in> set (enumerate 0 (butlast xs))"
    using ij by (simp add: in_enumerate_butlast)
  have c: "xs ! j \<in> set (drop (i + 1) xs)"
    unfolding in_set_drop using ij by (intro exI [of _ j]) simp
  have "m \<in> set (if Q (xs ! j) then G (xs ! i) (xs ! j) else [])"
    using ij by simp
  with c have "m \<in> set (concat (map (\<lambda>p2. if Q p2 then G (xs ! i) p2 else []) (drop (i + 1) xs)))"
    unfolding in_concat_map by blast
  then have "m \<in> set (case (i, xs ! i) of (idx, p1) \<Rightarrow>
       if P p1 then concat (map (\<lambda>p2. if Q p2 then G p1 p2 else []) (drop (idx + 1) xs)) else [])"
    using ij by simp
  with a show ?L
    unfolding in_concat_map by blast
qed

lemma in_pairs_loop2:
  "m \<in> set (concat (map (\<lambda>(idx, d1). concat (map (\<lambda>d2. G d1 d2) (drop (idx + 1) xs)))
     (enumerate 0 (butlast xs)))) \<longleftrightarrow>
   (\<exists>i j. i < j \<and> j < length xs \<and> m \<in> set (G (xs ! i) (xs ! j)))"
  using in_pairs_loop [of m "\<lambda>_. True" "\<lambda>_. True" G xs] by simp

subsection \<open>When each rule raises, and what it adds\<close>

lemma constraint_3_isl:
  assumes "\<forall>p\<in>set parks. name p \<in> set pn"
  shows "isl (constraint_3 pn days parks) \<longleftrightarrow>
           (\<exists>p\<in>set parks. \<exists>d\<in>set (cannot_visit_days p). d \<notin> set days)"
  unfolding constraint_3_def sequence_e_isl
  using assms by (simp add: bind_variables bex_Un) blast

lemma constraint_3_set:
  assumes "\<forall>p\<in>set parks. name p \<in> set pn" and "constraint_3 pn days parks = Inr cs"
  shows "c \<in> set cs \<longleftrightarrow>
           (\<exists>p\<in>set parks. \<exists>d\<in>set (cannot_visit_days p).
              c = Constr (Constraint_3 (name p) d) (V (park_schedule (name p) d)) EQ (N 0))"
proof -
  have "\<not> isl (constraint_3 pn days parks)"
    using assms(2) by simp
  then have ok: "\<forall>p\<in>set parks. \<forall>d\<in>set (cannot_visit_days p). d \<in> set days"
    unfolding constraint_3_isl [OF assms(1)] by simp
  show ?thesis
    unfolding sequence_e_Inr_set [OF assms(2) [unfolded constraint_3_def]]
    using assms(1) ok by (simp add: bind_variables bex_Un image_iff)
qed

lemma constraint_5_isl:
  assumes "\<forall>p\<in>set parks. name p \<in> set pn"
  shows "isl (constraint_5 pn days parks) \<longleftrightarrow>
           (\<exists>p\<in>set parks. \<exists>d\<in>set (days_to_avoid p). d \<notin> set days)"
  unfolding constraint_5_def sequence_e_isl
  using assms by (simp add: bind_variables bex_Un) blast

lemma constraint_5_set:
  assumes "\<forall>p\<in>set parks. name p \<in> set pn" and "constraint_5 pn days parks = Inr cs"
  shows "c \<in> set cs \<longleftrightarrow>
           (\<exists>p\<in>set parks. \<exists>d\<in>set (days_to_avoid p).
              c = Constr (Constraint_5 (name p) d) (V (park_schedule (name p) d)) EQ (N 0))"
proof -
  have "\<not> isl (constraint_5 pn days parks)"
    using assms(2) by simp
  then have ok: "\<forall>p\<in>set parks. \<forall>d\<in>set (days_to_avoid p). d \<in> set days"
    unfolding constraint_5_isl [OF assms(1)] by simp
  show ?thesis
    unfolding sequence_e_Inr_set [OF assms(2) [unfolded constraint_5_def]]
    using assms(1) ok by (simp add: bind_variables bex_Un image_iff)
qed

lemma constraint_4_isl:
  assumes "\<forall>p\<in>set parks. name p \<in> set pn"
  shows "isl (constraint_4 pn days parks) \<longleftrightarrow>
           (\<exists>p\<in>set parks. \<exists>d. must_visit_day p = Some d \<and> d \<notin> set days)"
proof -
  have key: "(\<exists>m\<in>set (case must_visit_day p of None \<Rightarrow> []
                 | Some d \<Rightarrow> [bind_e (variables pn days (name p) d)
                      (\<lambda>v. Inr (Constr (Constraint_4 (name p) d) (V v) EQ (N 1)))]). isl m) \<longleftrightarrow>
             (\<exists>d. must_visit_day p = Some d \<and> d \<notin> set days)"
    if "p \<in> set parks" for p
    using that assms by (cases "must_visit_day p") (simp_all add: bind_variables)
  show ?thesis
    unfolding constraint_4_def sequence_e_isl bex_concat_map
    by (rule bex_cong [OF refl]) (rule key)
qed

lemma constraint_4_set:
  assumes "\<forall>p\<in>set parks. name p \<in> set pn" and "constraint_4 pn days parks = Inr cs"
  shows "c \<in> set cs \<longleftrightarrow>
           (\<exists>p\<in>set parks. \<exists>d. must_visit_day p = Some d \<and>
              c = Constr (Constraint_4 (name p) d) (V (park_schedule (name p) d)) EQ (N 1))"
proof -
  have "\<not> isl (constraint_4 pn days parks)"
    using assms(2) by simp
  then have ok: "\<And>p d. p \<in> set parks \<Longrightarrow> must_visit_day p = Some d \<Longrightarrow> d \<in> set days"
    unfolding constraint_4_isl [OF assms(1)] by blast
  have key: "(Inr c \<in> set (case must_visit_day p of None \<Rightarrow> []
                 | Some d \<Rightarrow> [bind_e (variables pn days (name p) d)
                      (\<lambda>v. Inr (Constr (Constraint_4 (name p) d) (V v) EQ (N 1)))])) \<longleftrightarrow>
             (\<exists>d. must_visit_day p = Some d \<and>
                 c = Constr (Constraint_4 (name p) d) (V (park_schedule (name p) d)) EQ (N 1))"
    if "p \<in> set parks" for p
    using that assms(1) ok [of p] by (cases "must_visit_day p") (simp_all add: bind_variables)
  show ?thesis
    unfolding sequence_e_Inr_set [OF assms(2) [unfolded constraint_4_def]] in_concat_map
    by (rule bex_cong [OF refl]) (rule key)
qed

lemma constraint_6_isl:
  assumes "\<forall>p\<in>set parks. name p \<in> set pn"
  shows "isl (constraint_6 pn days parks) \<longleftrightarrow>
           (\<exists>p\<in>set parks. \<exists>d\<in>set (preferred_days p). d \<notin> set days)"
  unfolding constraint_6_def sequence_e_isl
  using assms by (simp add: isl_bind_e sequence_e_isl variables_def slack_variables_6_def bex_Un) blast

lemma pair_7_eq:
  assumes "name p1 \<in> set pn" "name p2 \<in> set pn" "d1 \<in> set days"
  shows "pair_7 pn days p1 p2 d1 =
     (if d1 + 1 \<in> set days then Inr (rule_7 (name p1) (name p2) d1) else Inl KeyError)"
  using assms by (simp add: pair_7_def variables_def slack_variables_7_def Let_def rule_7_def)

lemma constraint_7_alt:
  "constraint_7 pn days parks =
     bind_e (sequence_e (concat (map (items_7 pn days parks) (butlast days))))
       (\<lambda>css. Inr (concat css))"
  unfolding constraint_7_def items_7_def ..

lemma items_7_iff:
  assumes "\<forall>p\<in>set parks. name p \<in> set pn" and "d1 \<in> set (butlast days)"
  shows "m \<in> set (items_7 pn days parks d1) \<longleftrightarrow>
     (\<exists>i j. demanding_pair parks i j \<and>
        m = (if d1 + 1 \<in> set days then Inr (rule_7 (name (parks ! i)) (name (parks ! j)) d1)
             else Inl KeyError))"
proof -
  have d: "d1 \<in> set days"
    using assms(2) by (rule in_set_butlastD)
  have nm: "name (parks ! i) \<in> set pn" if "i < length parks" for i
    using assms(1) that by simp
  have eq: "pair_7 pn days (parks ! i) (parks ! j) d1 =
      (if d1 + 1 \<in> set days then Inr (rule_7 (name (parks ! i)) (name (parks ! j)) d1)
       else Inl KeyError)" if "i < j" "j < length parks" for i j
    using that by (intro pair_7_eq nm d) simp_all
  have step: "(i < j \<and> j < length parks \<and> demanding (parks ! i) \<and> demanding (parks ! j) \<and>
        m \<in> set [pair_7 pn days (parks ! i) (parks ! j) d1]) \<longleftrightarrow>
      ((i < j \<and> j < length parks \<and> demanding (parks ! i) \<and> demanding (parks ! j)) \<and>
        m = (if d1 + 1 \<in> set days then Inr (rule_7 (name (parks ! i)) (name (parks ! j)) d1)
             else Inl KeyError))" for i j
  proof (cases "i < j \<and> j < length parks")
    case True
    then show ?thesis by (simp add: eq)
  next
    case False
    then show ?thesis by blast
  qed
  show ?thesis
    unfolding items_7_def in_pairs_loop demanding_pair_def
    by (simp only: step)
qed

lemma constraint_7_isl:
  assumes "\<forall>p\<in>set parks. name p \<in> set pn"
  shows "isl (constraint_7 pn days parks) \<longleftrightarrow>
           (\<exists>d1\<in>set (butlast days). d1 + 1 \<notin> set days) \<and> (\<exists>i j. demanding_pair parks i j)"
proof -
  have key: "(\<exists>m\<in>set (items_7 pn days parks d1). isl m) \<longleftrightarrow>
      d1 + 1 \<notin> set days \<and> (\<exists>i j. demanding_pair parks i j)"
    if "d1 \<in> set (butlast days)" for d1
    unfolding Bex_def items_7_iff [OF assms that]
    by (cases "d1 + 1 \<in> set days") auto
  have "isl (constraint_7 pn days parks) \<longleftrightarrow>
      (\<exists>d1\<in>set (butlast days). \<exists>m\<in>set (items_7 pn days parks d1). isl m)"
    unfolding constraint_7_alt isl_bind_e sequence_e_isl bex_concat_map
    by simp
  also have "\<dots> \<longleftrightarrow> (\<exists>d1\<in>set (butlast days).
      d1 + 1 \<notin> set days \<and> (\<exists>i j. demanding_pair parks i j))"
    by (rule bex_cong [OF refl]) (rule key)
  also have "\<dots> \<longleftrightarrow> (\<exists>d1\<in>set (butlast days). d1 + 1 \<notin> set days) \<and> (\<exists>i j. demanding_pair parks i j)"
    by blast
  finally show ?thesis .
qed

lemma constraint_7_set:
  assumes "\<forall>p\<in>set parks. name p \<in> set pn" and "constraint_7 pn days parks = Inr cs"
  shows "c \<in> set cs \<longleftrightarrow>
           (\<exists>d1\<in>set (butlast days). \<exists>i j. demanding_pair parks i j \<and>
              c \<in> set (rule_7 (name (parks ! i)) (name (parks ! j)) d1))"
proof -
  have "\<not> isl (constraint_7 pn days parks)"
    using assms(2) by simp
  then have ok: "d1 + 1 \<in> set days" if "d1 \<in> set (butlast days)" "demanding_pair parks i j" for d1 i j
    unfolding constraint_7_isl [OF assms(1)] using that by blast
  from assms(2) obtain css
    where css: "sequence_e (concat (map (items_7 pn days parks) (butlast days))) = Inr css"
      and cs: "cs = concat css"
    unfolding constraint_7_alt
    by (cases "sequence_e (concat (map (items_7 pn days parks) (butlast days)))") auto
  have key: "Inr cl \<in> set (items_7 pn days parks d1) \<longleftrightarrow>
      (\<exists>i j. demanding_pair parks i j \<and> cl = rule_7 (name (parks ! i)) (name (parks ! j)) d1)"
    if "d1 \<in> set (butlast days)" for d1 cl
    unfolding items_7_iff [OF assms(1) that]
    using ok [OF that] by auto
  have mem: "cl \<in> set css \<longleftrightarrow> (\<exists>d1\<in>set (butlast days). \<exists>i j. demanding_pair parks i j \<and>
        cl = rule_7 (name (parks ! i)) (name (parks ! j)) d1)" for cl
    unfolding sequence_e_Inr_set [OF css] in_concat_map
    by (rule bex_cong [OF refl]) (rule key)
  show ?thesis
    unfolding cs set_concat UN_iff Bex_def mem by blast
qed

lemma constraint_8_alt:
  "constraint_8 days parks companies = concat (map (\<lambda>c. parks_8 c days parks) companies)"
  unfolding constraint_8_def parks_8_def days_8_def ..

lemma days_8_iff:
  "x \<in> set (days_8 c p1 p2 days) \<longleftrightarrow>
     (\<exists>k l. window_pair c days k l \<and> x \<in> set (pair_8 p1 p2 (days ! k) (days ! l)))"
proof -
  have step: "(k < l \<and> l < length days \<and>
        x \<in> set (if (days ! l - days ! k) + 1 > number_of_days c
                  then pair_8 p1 p2 (days ! k) (days ! l) else [])) \<longleftrightarrow>
      ((k < l \<and> l < length days \<and> (days ! l - days ! k) + 1 > number_of_days c) \<and>
        x \<in> set (pair_8 p1 p2 (days ! k) (days ! l)))" for k l
    by (cases "(days ! l - days ! k) + 1 > number_of_days c") simp_all
  show ?thesis
    unfolding days_8_def in_pairs_loop2 window_pair_def
    by (simp only: step)
qed

lemma parks_8_iff:
  "x \<in> set (parks_8 c days parks) \<longleftrightarrow>
     (\<exists>i j. company_pair c parks i j \<and> x \<in> set (days_8 c (parks ! i) (parks ! j) days))"
  unfolding parks_8_def in_pairs_loop company_pair_def
  by (simp only: conj_assoc)

lemma constraint_8_set:
  "x \<in> set (constraint_8 days parks companies) \<longleftrightarrow>
     (\<exists>c\<in>set companies. \<exists>i j. company_pair c parks i j \<and>
        (\<exists>k l. window_pair c days k l \<and>
           x \<in> set (pair_8 (parks ! i) (parks ! j) (days ! k) (days ! l))))"
  unfolding constraint_8_alt in_concat_map parks_8_iff days_8_iff ..

subsection \<open>The built model\<close>

lemma demanding_pair_iff:
  "(\<exists>i j. demanding_pair parks i j) \<longleftrightarrow> 2 \<le> length (filter demanding parks)"
proof -
  let ?S = "{i. i < length parks \<and> demanding (parks ! i)}"
  have fin: "finite ?S" by simp
  have len: "length (filter demanding parks) = card ?S"
    by (rule length_filter_conv_card)
  show ?thesis
  proof
    assume "\<exists>i j. demanding_pair parks i j"
    then obtain i j where ij: "i < j" "j < length parks" "demanding (parks ! i)" "demanding (parks ! j)"
      unfolding demanding_pair_def by blast
    then have "{i, j} \<subseteq> ?S" by simp
    then have "card {i, j} \<le> card ?S"
      using fin by (rule card_mono [rotated])
    moreover have "card {i, j} = 2" using ij(1) by simp
    ultimately show "2 \<le> length (filter demanding parks)"
      unfolding len by simp
  next
    assume "2 \<le> length (filter demanding parks)"
    then have "\<not> card ?S \<le> Suc 0" unfolding len by simp
    then obtain a b where ab: "a \<in> ?S" "b \<in> ?S" "a \<noteq> b"
      unfolding card_le_Suc0_iff_eq [OF fin] by blast
    show "\<exists>i j. demanding_pair parks i j"
    proof (cases "a < b")
      case True
      then have "demanding_pair parks a b"
        using ab unfolding demanding_pair_def by simp
      then show ?thesis by blast
    next
      case False
      then have "demanding_pair parks b a"
        using ab unfolding demanding_pair_def by simp
      then show ?thesis by blast
    qed
  qed
qed

lemma names_ok: "\<forall>p\<in>set parks. name p \<in> set (map name parks)"
  by simp

lemma build_model_isl:
  "isl (build_model days parks companies) \<longleftrightarrow> \<not> keys_ok days parks"
proof -
  have "isl (build_model days parks companies) \<longleftrightarrow>
      isl (constraint_3 (map name parks) days parks) \<or>
      isl (constraint_4 (map name parks) days parks) \<or>
      isl (constraint_5 (map name parks) days parks) \<or>
      isl (constraint_6 (map name parks) days parks) \<or>
      isl (constraint_7 (map name parks) days parks)"
    unfolding build_model_def Let_def isl_bind_e by simp
  also have "\<dots> \<longleftrightarrow> \<not> keys_ok days parks"
    unfolding constraint_3_isl [OF names_ok] constraint_4_isl [OF names_ok]
      constraint_5_isl [OF names_ok] constraint_6_isl [OF names_ok]
      constraint_7_isl [OF names_ok] demanding_pair_iff keys_ok_def list_all_iff
    by (auto split: option.splits)
  finally show ?thesis .
qed

lemma build_model_Inr:
  assumes "build_model days parks companies = Inr m"
  obtains c3 c4 c5 c7 where
    "constraint_3 (map name parks) days parks = Inr c3"
    "constraint_4 (map name parks) days parks = Inr c4"
    "constraint_5 (map name parks) days parks = Inr c5"
    "constraint_7 (map name parks) days parks = Inr c7"
    "m = \<lparr>objective = objective_of (map name parks) days,
          constraints = constraint_1 (map name parks) days @ constraint_2 (map name parks) days @
                        c3 @ c4 @ c5 @ c7 @ constraint_8 days parks companies\<rparr>"
  using assms unfolding build_model_def Let_def bind_e_Inr by blast

lemma build_model_constraints:
  assumes "build_model days parks companies = Inr m"
  shows "c \<in> set (constraints m) \<longleftrightarrow>
     c \<in> set (constraint_1 (map name parks) days) \<or>
     c \<in> set (constraint_2 (map name parks) days) \<or>
     (\<exists>p\<in>set parks. \<exists>d\<in>set (cannot_visit_days p).
        c = Constr (Constraint_3 (name p) d) (V (park_schedule (name p) d)) EQ (N 0)) \<or>
     (\<exists>p\<in>set parks. \<exists>d. must_visit_day p = Some d \<and>
        c = Constr (Constraint_4 (name p) d) (V (park_schedule (name p) d)) EQ (N 1)) \<or>
     (\<exists>p\<in>set parks. \<exists>d\<in>set (days_to_avoid p).
        c = Constr (Constraint_5 (name p) d) (V (park_schedule (name p) d)) EQ (N 0)) \<or>
     (\<exists>d1\<in>set (butlast days). \<exists>i j. demanding_pair parks i j \<and>
        c \<in> set (rule_7 (name (parks ! i)) (name (parks ! j)) d1)) \<or>
     c \<in> set (constraint_8 days parks companies)"
proof -
  from assms obtain c3 c4 c5 c7 where
    c3: "constraint_3 (map name parks) days parks = Inr c3" and
    c4: "constraint_4 (map name parks) days parks = Inr c4" and
    c5: "constraint_5 (map name parks) days parks = Inr c5" and
    c7: "constraint_7 (map name parks) days parks = Inr c7" and
    m: "m = \<lparr>objective = objective_of (map name parks) days,
          constraints = constraint_1 (map name parks) days @ constraint_2 (map name parks) days @
                        c3 @ c4 @ c5 @ c7 @ constraint_8 days parks companies\<rparr>"
    by (rule build_model_Inr)
  have "c \<in> set (constraints m) \<longleftrightarrow>
     c \<in> set (constraint_1 (map name parks) days) \<or>
     c \<in> set (constraint_2 (map name parks) days) \<or>
     c \<in> set c3 \<or> c \<in> set c4 \<or> c \<in> set c5 \<or> c \<in> set c7 \<or>
     c \<in> set (constraint_8 days parks companies)"
    unfolding m by simp
  then show ?thesis
    unfolding constraint_3_set [OF names_ok c3] constraint_4_set [OF names_ok c4]
      constraint_5_set [OF names_ok c5] constraint_7_set [OF names_ok c7] .
qed

lemma build_model_successors:
  assumes "build_model days parks companies = Inr m" and "demanding_pair parks i j"
    and "d \<in> set (butlast days)"
  shows "d + 1 \<in> set days"
proof -
  have "\<not> isl (build_model days parks companies)"
    using assms(1) by simp
  then have "keys_ok days parks"
    by (simp add: build_model_isl)
  moreover have "2 \<le> length (filter demanding parks)"
    using assms(2) demanding_pair_iff by blast
  ultimately have "list_all (\<lambda>d1. d1 + 1 \<in> set days) (butlast days)"
    unfolding keys_ok_def by simp
  then show ?thesis
    using assms(3) unfolding list_all_iff by blast
qed

lemma successor_closed_butlast:
  fixes days :: "int list"
  assumes closed: "\<And>d. d \<in> set (butlast days) \<Longrightarrow> d + 1 \<in> set days"
    and d1: "d1 \<in> set days" and d2: "d1 + 1 \<in> set days"
  shows "d1 \<in> set (butlast days)"
proof (rule ccontr)
  assume not: "d1 \<notin> set (butlast days)"
  have ne: "days \<noteq> []" using d1 by auto
  then have split: "set days = set (butlast days) \<union> {last days}"
    by (metis append_butlast_last_id list.set(1,2) set_append)
  have last: "d1 = last days"
    using d1 not unfolding split by simp
  have "d1 + 1 \<noteq> last days" using last by simp
  then have in_b: "d1 + 1 \<in> set (butlast days)"
    using d2 unfolding split by simp
  let ?M = "Max (set (butlast days))"
  have M_in: "?M \<in> set (butlast days)"
    using in_b by (intro Max_in) auto
  have M_ge: "d1 + 1 \<le> ?M"
    using in_b by (intro Max_ge) auto
  have "?M + 1 \<in> set days"
    using M_in by (rule closed)
  moreover have "?M + 1 \<notin> set (butlast days)"
  proof
    assume "?M + 1 \<in> set (butlast days)"
    then have "?M + 1 \<le> ?M" by (intro Max_ge) auto
    then show False by simp
  qed
  ultimately have "?M + 1 = last days"
    unfolding split by simp
  then show False using last M_ge by simp
qed

lemma rule_number_constraint_1: "c \<in> set (constraint_1 pn days) \<Longrightarrow> rule_number (label c) = 1"
  by (auto simp: constraint_1_def)

lemma rule_number_constraint_2: "c \<in> set (constraint_2 pn days) \<Longrightarrow> rule_number (label c) = 2"
  by (auto simp: constraint_2_def)

lemma rule_number_rule_7: "c \<in> set (rule_7 n1 n2 d1) \<Longrightarrow> rule_number (label c) = 7"
  by (auto simp: rule_7_def)

lemma rule_number_constraint_8:
  "c \<in> set (constraint_8 days parks companies) \<Longrightarrow> rule_number (label c) = 8"
  unfolding constraint_8_set by (auto simp: pair_8_def)

lemma rule_7_constraints:
  assumes "build_model days parks companies = Inr m"
  shows "c \<in> set (constraints m) \<and> rule_number (label c) = 7 \<longleftrightarrow>
     (\<exists>d1\<in>set (butlast days). \<exists>i j. demanding_pair parks i j \<and>
        c \<in> set (rule_7 (name (parks ! i)) (name (parks ! j)) d1))"
  unfolding build_model_constraints [OF assms]
  using rule_number_constraint_1 [of c "map name parks" days]
    rule_number_constraint_2 [of c "map name parks" days]
    rule_number_constraint_8 [of c days parks companies]
    rule_number_rule_7 [of c]
  by auto

lemma rule_8_constraints:
  assumes "build_model days parks companies = Inr m"
  shows "c \<in> set (constraints m) \<and> rule_number (label c) = 8 \<longleftrightarrow>
     c \<in> set (constraint_8 days parks companies)"
  unfolding build_model_constraints [OF assms]
  by (auto dest: rule_number_constraint_1 rule_number_constraint_2 rule_number_rule_7
      rule_number_constraint_8)

lemma day_positions:
  fixes days :: "int list"
  assumes "sorted_wrt (<) days" and "d1 \<in> set days" and "d2 \<in> set days" and "d1 < d2"
  obtains k l where "k < l" "l < length days" "days ! k = d1" "days ! l = d2"
proof -
  from assms(2) obtain k where k: "k < length days" "days ! k = d1"
    unfolding in_set_conv_nth by blast
  from assms(3) obtain l where l: "l < length days" "days ! l = d2"
    unfolding in_set_conv_nth by blast
  have "k < l"
  proof (rule ccontr)
    assume "\<not> k < l"
    then consider "l = k" | "l < k" by linarith
    then show False
    proof cases
      case 1
      then show ?thesis using k l assms(4) by simp
    next
      case 2
      from assms(1) 2 k(1) have "days ! l < days ! k"
        by (rule sorted_wrt_nth_less)
      then show ?thesis using k l assms(4) by simp
    qed
  qed
  then show ?thesis using that k l by blast
qed

lemma pair_8_overlap:
  assumes "x \<in> set (pair_8 p1 p2 d1 d2)" and "x \<in> set (pair_8 q1 q2 e1 e2)"
    and "d1 < d2" and "e1 < e2"
  shows "name p1 = name q1 \<and> name p2 = name q2 \<and> d1 = e1 \<and> d2 = e2"
  using assms unfolding pair_8_def by auto

lemma pair_8_in_constraint_8_iff:
  assumes sorted: "sorted_wrt (<) days"
    and names: "distinct (map name parks)"
    and comps: "distinct (map company_c companies)"
    and c: "c \<in> set companies"
    and pair: "company_pair c parks i j"
    and d: "d1 \<in> set days" "d2 \<in> set days" "d1 < d2"
    and x: "x \<in> set (pair_8 (parks ! i) (parks ! j) d1 d2)"
  shows "x \<in> set (constraint_8 days parks companies) \<longleftrightarrow> number_of_days c < (d2 - d1) + 1"
proof
  assume "number_of_days c < (d2 - d1) + 1"
  moreover from sorted d obtain k l where kl: "k < l" "l < length days" "days ! k = d1" "days ! l = d2"
    by (rule day_positions)
  ultimately have "window_pair c days k l"
    unfolding window_pair_def by simp
  then show "x \<in> set (constraint_8 days parks companies)"
    unfolding constraint_8_set using c pair x kl by blast
next
  assume "x \<in> set (constraint_8 days parks companies)"
  then obtain c' i' j' k l where c': "c' \<in> set companies"
    and pair': "company_pair c' parks i' j'"
    and win: "window_pair c' days k l"
    and x': "x \<in> set (pair_8 (parks ! i') (parks ! j') (days ! k) (days ! l))"
    unfolding constraint_8_set by blast
  from win have kl: "k < l" "l < length days" and span: "number_of_days c' < (days ! l - days ! k) + 1"
    unfolding window_pair_def by simp_all
  have lt: "days ! k < days ! l"
    using sorted kl by (rule sorted_wrt_nth_less)
  have eq: "name (parks ! i) = name (parks ! i')" "d1 = days ! k" "d2 = days ! l"
    using pair_8_overlap [OF x x' d(3) lt] by simp_all
  have i: "i < length parks" and i': "i' < length parks"
    using pair pair' unfolding company_pair_def by simp_all
  have "map name parks ! i = map name parks ! i'"
    using eq(1) i i' by simp
  moreover have "i < length (map name parks)" "i' < length (map name parks)"
    using i i' by simp_all
  ultimately have "i = i'"
    using names by (simp only: nth_eq_iff_index_eq)
  then have "company_c c = company_c c'"
    using pair pair' unfolding company_pair_def by simp
  moreover have "inj_on company_c (set companies)"
    using comps by (simp add: distinct_map)
  ultimately have "c = c'"
    using c c' by (simp add: inj_on_eq_iff)
  then show "number_of_days c < (d2 - d1) + 1"
    using span eq by simp
qed




subsection \<open>Sums and counts\<close>

lemma sum_list_swap:
  fixes f :: "'a \<Rightarrow> 'b \<Rightarrow> real"
  shows "sum_list (map (\<lambda>x. sum_list (map (f x) ys)) xs) =
         sum_list (map (\<lambda>y. sum_list (map (\<lambda>x. f x y) xs)) ys)"
proof (induction xs)
  case Nil
  then show ?case by simp
next
  case (Cons x xs)
  then show ?case by (simp add: sum_list_addf)
qed

lemma sum_list_binary:
  fixes g :: "'a \<Rightarrow> real"
  assumes "\<forall>x\<in>set xs. g x = 0 \<or> g x = 1"
  shows "sum_list (map g xs) = real (length (filter (\<lambda>x. g x \<noteq> 0) xs))"
  using assms by (induction xs) auto

lemma count_le_sum_list:
  fixes g :: "'a \<Rightarrow> real"
  assumes "\<forall>z\<in>set xs. 0 \<le> g z"
  shows "real (count_list xs x) * g x \<le> sum_list (map g xs)"
  using assms
proof (induction xs)
  case Nil
  then show ?case by simp
next
  case (Cons z zs)
  then have ih: "real (count_list zs x) * g x \<le> sum_list (map g zs)" and z: "0 \<le> g z"
    by simp_all
  show ?case
  proof (cases "z = x")
    case True
    then show ?thesis using ih by (simp add: algebra_simps)
  next
    case False
    then show ?thesis using ih z by simp
  qed
qed

lemma distinct_if_count_le_1:
  assumes "\<And>x. count_list xs x \<le> 1"
  shows "distinct xs"
  using assms
proof (induction xs)
  case Nil
  then show ?case by simp
next
  case (Cons z zs)
  have "count_list (z # zs) z \<le> 1" by (rule Cons.prems)
  then have "count_list zs z = 0" by simp
  then have "z \<notin> set zs" by (simp add: count_list_0_iff)
  moreover have "count_list zs x \<le> 1" for x
    using Cons.prems [of x] by (simp split: if_splits)
  then have "distinct zs" by (rule Cons.IH)
  ultimately show ?case by simp
qed

lemma sum_list_if_const:
  "sum_list (map (\<lambda>x. if T x then (k::nat) else 0) xs) = length (filter T xs) * k"
  by (induction xs) auto

lemma sum_list_if_eq:
  "sum_list (map (\<lambda>x. if x = d then (L x :: nat) else 0) xs) = count_list xs d * L d"
  by (induction xs) auto


subsection \<open>What the hard constraints say\<close>

lemma satisfies_hardD:
  assumes "satisfies_hard a m" and "c \<in> set (constraints m)" and "hard c"
  shows "holds a c"
  using assms unfolding satisfies_hard_def list_all_iff by simp

lemma hard_rule_1:
  assumes "build_model days parks companies = Inr m" and "satisfies_hard a m" and "d \<in> set days"
  shows "sum_list (map (\<lambda>p. a (park_schedule p d)) (map name parks)) \<le> 1"
proof -
  let ?c = "Constr (Constraint_1 d) (lpSum (map (\<lambda>p. park_schedule p d) (map name parks))) LE (N 1)"
  from assms(1) have "set (constraint_1 (map name parks) days) \<subseteq> set (constraints m)"
    by (rule build_model_Inr) auto
  moreover have "?c \<in> set (constraint_1 (map name parks) days)"
    unfolding constraint_1_def using assms(3) by (simp add: image_iff)
  ultimately have "?c \<in> set (constraints m)" by blast
  moreover have "hard ?c" by (simp add: hard_def)
  ultimately have "holds a ?c" using assms(2) by (intro satisfies_hardD)
  then show ?thesis by (simp add: comp_def)
qed

lemma hard_rule_2:
  assumes "build_model days parks companies = Inr m" and "satisfies_hard a m" and "p \<in> set parks"
  shows "sum_list (map (\<lambda>d. a (park_schedule (name p) d)) days) = 1"
proof -
  let ?c = "Constr (Constraint_2 (name p)) (lpSum (map (\<lambda>d. park_schedule (name p) d) days)) EQ (N 1)"
  from assms(1) have "set (constraint_2 (map name parks) days) \<subseteq> set (constraints m)"
    by (rule build_model_Inr) auto
  moreover have "?c \<in> set (constraint_2 (map name parks) days)"
    unfolding constraint_2_def using assms(3) by (simp add: image_iff) blast
  ultimately have "?c \<in> set (constraints m)" by blast
  moreover have "hard ?c" by (simp add: hard_def)
  ultimately have "holds a ?c" using assms(2) by (intro satisfies_hardD)
  then show ?thesis by (simp add: comp_def)
qed

lemma binary_xD:
  assumes "binary_x a parks days" and "p \<in> set parks" and "d \<in> set days"
  shows "a (park_schedule (name p) d) = 0 \<or> a (park_schedule (name p) d) = 1"
  using assms unfolding binary_x_def list_all_iff by blast

subsection \<open>What the extractor reports\<close>

lemma count_list_concat_map:
  "count_list (concat (map f xs)) z = sum_list (map (\<lambda>x. count_list (f x) z) xs)"
  by (induction xs) simp_all


lemma count_snd_row:
  "count_list (map snd (concat (map (\<lambda>y. if t (name y) then [(x, name y)] else []) parks))) n =
     (if t n then count_list (map name parks) n else 0)"
  by (induction parks) auto

lemma count_fst_row:
  "count_list (map fst (concat (map (\<lambda>y. if t (name y) then [(x, name y)] else []) parks))) d =
     (if x = d then length (filter (\<lambda>y. t (name y)) parks) else 0)"
  by (induction parks) auto



lemma count_snd_extract_solution:
  assumes "0 \<le> status"
  shows "count_list (map snd (extract_solution status varValue days parks)) n =
     length (filter (\<lambda>x. truthy (varValue (park_schedule n x))) days) *
     count_list (map name parks) n"
proof -
  define row where "row x = concat (map (\<lambda>y.
        if truthy (varValue (park_schedule (name y) x)) then [(x, name y)] else []) parks)" for x
  have row: "count_list (map snd (row x)) n =
      (if truthy (varValue (park_schedule n x)) then count_list (map name parks) n else 0)" for x
    unfolding row_def
    by (rule count_snd_row [of "\<lambda>p. truthy (varValue (park_schedule p x))"])
  have e: "map snd (extract_solution status varValue days parks) =
      concat (map (\<lambda>x. map snd (row x)) days)"
    using assms by (simp add: extract_solution_def row_def [abs_def] map_concat comp_def)
  have "count_list (map snd (extract_solution status varValue days parks)) n =
      sum_list (map (\<lambda>x. count_list (map snd (row x)) n) days)"
    unfolding e by (rule count_list_concat_map)
  also have "\<dots> = sum_list (map (\<lambda>x. if truthy (varValue (park_schedule n x))
      then count_list (map name parks) n else 0) days)"
    by (simp only: row)
  also have "\<dots> = length (filter (\<lambda>x. truthy (varValue (park_schedule n x))) days) *
      count_list (map name parks) n"
    by (rule sum_list_if_const)
  finally show ?thesis .
qed

lemma count_fst_extract_solution:
  assumes "0 \<le> status"
  shows "count_list (map fst (extract_solution status varValue days parks)) d =
     count_list days d *
     length (filter (\<lambda>y. truthy (varValue (park_schedule (name y) d))) parks)"
proof -
  define row where "row x = concat (map (\<lambda>y.
        if truthy (varValue (park_schedule (name y) x)) then [(x, name y)] else []) parks)" for x
  have row: "count_list (map fst (row x)) d =
      (if x = d then length (filter (\<lambda>y. truthy (varValue (park_schedule (name y) x))) parks) else 0)" for x
    unfolding row_def
    by (rule count_fst_row [of "\<lambda>p. truthy (varValue (park_schedule p x))"])
  have e: "map fst (extract_solution status varValue days parks) =
      concat (map (\<lambda>x. map fst (row x)) days)"
    using assms by (simp add: extract_solution_def row_def [abs_def] map_concat comp_def)
  have "count_list (map fst (extract_solution status varValue days parks)) d =
      sum_list (map (\<lambda>x. count_list (map fst (row x)) d) days)"
    unfolding e by (rule count_list_concat_map)
  also have "\<dots> = sum_list (map (\<lambda>x. if x = d
      then length (filter (\<lambda>y. truthy (varValue (park_schedule (name y) x))) parks) else 0) days)"
    by (simp only: row)
  also have "\<dots> = count_list days d *
      length (filter (\<lambda>y. truthy (varValue (park_schedule (name y) d))) parks)"
    by (rule sum_list_if_eq)
  finally show ?thesis .
qed

lemma feasible_schedule_parks:
  assumes b: "build_model days parks companies = Inr m"
    and sat: "satisfies_hard a m"
    and bin: "binary_x a parks days"
    and st: "0 \<le> status"
    and p: "p \<in> set parks"
  shows "count_list (map snd (extract_solution status (\<lambda>v. Some (a v)) days parks)) (name p) = 1"
proof -
  let ?F = "length (filter (\<lambda>x. a (park_schedule (name p) x) \<noteq> 0) days)"
  let ?K = "count_list (map name parks) (name p)"
  have "real ?F = sum_list (map (\<lambda>d. a (park_schedule (name p) d)) days)"
    using bin p by (intro sum_list_binary [symmetric] ballI binary_xD)
  also have "\<dots> = 1"
    using b sat p by (rule hard_rule_2)
  finally have F: "?F = 1" by simp
  then have "filter (\<lambda>x. a (park_schedule (name p) x) \<noteq> 0) days \<noteq> []"
    by auto
  then obtain x0 where x0: "x0 \<in> set days" "a (park_schedule (name p) x0) \<noteq> 0"
    unfolding filter_empty_conv by blast
  then have one: "a (park_schedule (name p) x0) = 1"
    using binary_xD [OF bin p x0(1)] by simp
  have nonneg: "\<forall>n\<in>set (map name parks). 0 \<le> a (park_schedule n x0)"
  proof
    fix n assume "n \<in> set (map name parks)"
    then obtain y where "y \<in> set parks" "n = name y" by auto
    then show "0 \<le> a (park_schedule n x0)"
      using binary_xD [OF bin _ x0(1), of y] by auto
  qed
  have "real ?K * a (park_schedule (name p) x0) \<le>
      sum_list (map (\<lambda>n. a (park_schedule n x0)) (map name parks))"
    using nonneg by (rule count_le_sum_list)
  also have "\<dots> \<le> 1"
    using b sat x0(1) by (rule hard_rule_1)
  finally have "?K \<le> 1" using one by simp
  moreover have "?K \<noteq> 0"
    using p by (simp add: count_list_0_iff)
  ultimately have K: "?K = 1" by simp
  have "count_list (map snd (extract_solution status (\<lambda>v. Some (a v)) days parks)) (name p) = ?F * ?K"
    unfolding count_snd_extract_solution [OF st] by (simp add: truthy_def)
  then show ?thesis using F K by simp
qed

lemma feasible_schedule_days:
  assumes b: "build_model days parks companies = Inr m"
    and sat: "satisfies_hard a m"
    and bin: "binary_x a parks days"
    and st: "0 \<le> status"
  shows "count_list (map fst (extract_solution status (\<lambda>v. Some (a v)) days parks)) d \<le> 1"
proof -
  let ?L = "length (filter (\<lambda>y. a (park_schedule (name y) d) \<noteq> 0) parks)"
  have eq: "count_list (map fst (extract_solution status (\<lambda>v. Some (a v)) days parks)) d =
      count_list days d * ?L"
    unfolding count_fst_extract_solution [OF st] by (simp add: truthy_def)
  show ?thesis
  proof (cases "d \<in> set days")
    case False
    then show ?thesis unfolding eq by simp
  next
    case d: True
    have "real ?L = sum_list (map (\<lambda>y. a (park_schedule (name y) d)) parks)"
      using bin d by (intro sum_list_binary [symmetric] ballI binary_xD)
    also have "\<dots> = sum_list (map (\<lambda>n. a (park_schedule n d)) (map name parks))"
      by (simp add: comp_def)
    also have "\<dots> \<le> 1"
      using b sat d by (rule hard_rule_1)
    finally have L: "?L \<le> 1" by simp
    show ?thesis
    proof (cases "?L = 0")
      case True
      then show ?thesis unfolding eq by simp
    next
      case False
      then have "filter (\<lambda>y. a (park_schedule (name y) d) \<noteq> 0) parks \<noteq> []"
        by simp
      then obtain y where y: "y \<in> set parks" "a (park_schedule (name y) d) \<noteq> 0"
        unfolding filter_empty_conv by blast
      then have one: "a (park_schedule (name y) d) = 1"
        using binary_xD [OF bin y(1) d] by simp
      have nonneg: "\<forall>x\<in>set days. 0 \<le> a (park_schedule (name y) x)"
      proof
        fix x assume "x \<in> set days"
        then show "0 \<le> a (park_schedule (name y) x)"
          using binary_xD [OF bin y(1), of x] by auto
      qed
      have "real (count_list days d) * a (park_schedule (name y) d) \<le>
          sum_list (map (\<lambda>x. a (park_schedule (name y) x)) days)"
        using nonneg by (rule count_le_sum_list)
      also have "\<dots> = 1"
        using b sat y(1) by (rule hard_rule_2)
      finally have "count_list days d \<le> 1" using one by simp
      moreover have "?L = 1" using L False by linarith
      ultimately show ?thesis unfolding eq by simp
    qed
  qed
qed

section \<open>The claims\<close>

lemmas builder_defs =
  build_model_def Let_def objective_of_def PENALTY_6_def PENALTY_7_def PENALTY_8_def
  constraint_1_def constraint_2_def constraint_3_def constraint_4_def constraint_5_def
  constraint_6_def constraint_7_def constraint_8_def pair_7_def pair_8_def
  variables_def slack_variables_6_def slack_variables_7_def

lemma isl_KeyError:
  fixes m :: "error + 'a"
  shows "isl m \<longleftrightarrow> m = Inl KeyError"
  by (cases m) (simp_all add: error_eq)

text \<open>
  C1. At a park that prefers day 1, line 65 builds the preferred-day constraint, and the
  program handed to the solver does not hold it: its constraints are those of rules 1
  and 2 only, while the objective still charges \<open>slack_6\<close>.
\<close>

theorem preferred_day_constraint_not_attached:
  "constraint_6 [''Epcot''] [1, 2] [preferring_park] =
     Inr [Constr (Constraint_6 ''Epcot'' [1])
            (Add (lpSum [park_schedule ''Epcot'' 1]) (V (slack_6 ''Epcot''))) EQ (N 1)]
   \<and> build_model [1, 2] [preferring_park] [] =
     Inr \<lparr>objective =
            Add (Add (Mul 10000 (lpSum [slack_6 ''Epcot'']))
                     (Mul 10000 (lpSum [slack_7 ''Epcot'' ''Epcot'' 1 1, slack_7 ''Epcot'' ''Epcot'' 1 2,
                                        slack_7 ''Epcot'' ''Epcot'' 2 1, slack_7 ''Epcot'' ''Epcot'' 2 2])))
                (Mul 10000 (lpSum [slack_8 ''Epcot'' ''Epcot'' 1 1, slack_8 ''Epcot'' ''Epcot'' 1 2,
                                   slack_8 ''Epcot'' ''Epcot'' 2 1, slack_8 ''Epcot'' ''Epcot'' 2 2])),
          constraints =
            [Constr (Constraint_1 1) (lpSum [park_schedule ''Epcot'' 1]) LE (N 1),
             Constr (Constraint_1 2) (lpSum [park_schedule ''Epcot'' 2]) LE (N 1),
             Constr (Constraint_2 ''Epcot'')
               (lpSum [park_schedule ''Epcot'' 1, park_schedule ''Epcot'' 2]) EQ (N 1)]\<rparr>"
  by (simp add: builder_defs preferring_park_def)







text \<open>
  C4 as stated fails: with one day and two parks of different companies, of which one is
  not demanding, the objective sums \<open>slack_7\<close> and \<open>slack_8\<close> at every pair of names and
  at the pair of the day with itself.
\<close>

theorem slack_families_are_full_products:
  "build_model [1] [plain_park, demanding_a] [] =
     Inr \<lparr>objective =
            Add (Add (Mul 10000 (lpSum [slack_6 ''Aquatica'', slack_6 ''Magic Kingdom'']))
                     (Mul 10000 (lpSum [slack_7 ''Aquatica'' ''Aquatica'' 1 1,
                                        slack_7 ''Aquatica'' ''Magic Kingdom'' 1 1,
                                        slack_7 ''Magic Kingdom'' ''Aquatica'' 1 1,
                                        slack_7 ''Magic Kingdom'' ''Magic Kingdom'' 1 1])))
                (Mul 10000 (lpSum [slack_8 ''Aquatica'' ''Aquatica'' 1 1,
                                   slack_8 ''Aquatica'' ''Magic Kingdom'' 1 1,
                                   slack_8 ''Magic Kingdom'' ''Aquatica'' 1 1,
                                   slack_8 ''Magic Kingdom'' ''Magic Kingdom'' 1 1])),
          constraints =
            [Constr (Constraint_1 1)
               (lpSum [park_schedule ''Aquatica'' 1, park_schedule ''Magic Kingdom'' 1]) LE (N 1),
             Constr (Constraint_2 ''Aquatica'') (lpSum [park_schedule ''Aquatica'' 1]) EQ (N 1),
             Constr (Constraint_2 ''Magic Kingdom'') (lpSum [park_schedule ''Magic Kingdom'' 1]) EQ (N 1)]\<rparr>"
  by (simp add: builder_defs plain_park_def demanding_a_def)

text \<open>
  C4 (as amended). The variables summed into the objective of a built model are
  \<open>slack_6\<close> at every park name, and \<open>slack_7\<close> and \<open>slack_8\<close> at every two park names and
  every two days of the input, whatever the parks' flags and companies and the order of
  the days; no assignment variable occurs in it.
\<close>

theorem objective_variables:
  assumes "build_model days parks companies = Inr m"
  shows "v \<in> set (vars_of (objective m)) \<longleftrightarrow>
     (case v of
        park_schedule p d \<Rightarrow> False
      | slack_6 p \<Rightarrow> p \<in> set (map name parks)
      | slack_7 p1 p2 d1 d2 \<Rightarrow>
          p1 \<in> set (map name parks) \<and> p2 \<in> set (map name parks) \<and> d1 \<in> set days \<and> d2 \<in> set days
      | slack_8 p1 p2 d1 d2 \<Rightarrow>
          p1 \<in> set (map name parks) \<and> p2 \<in> set (map name parks) \<and> d1 \<in> set days \<and> d2 \<in> set days)"
proof -
  from assms have obj: "objective m = objective_of (map name parks) days"
    by (rule build_model_Inr) simp
  show ?thesis
    unfolding obj objective_of_def
    by (cases v) (auto simp: image_iff)
qed

theorem objective_variables_witness:
  "build_model [1] [plain_park, demanding_a] [] =
     Inr \<lparr>objective = objective_of [''Aquatica'', ''Magic Kingdom''] [1],
          constraints =
            [Constr (Constraint_1 1)
               (lpSum [park_schedule ''Aquatica'' 1, park_schedule ''Magic Kingdom'' 1]) LE (N 1),
             Constr (Constraint_2 ''Aquatica'') (lpSum [park_schedule ''Aquatica'' 1]) EQ (N 1),
             Constr (Constraint_2 ''Magic Kingdom'') (lpSum [park_schedule ''Magic Kingdom'' 1]) EQ (N 1)]\<rparr>
   \<and> slack_7 ''Aquatica'' ''Magic Kingdom'' 1 1
       \<in> set (vars_of (objective_of [''Aquatica'', ''Magic Kingdom''] [1]))"
proof -
  have b: "build_model [1] [plain_park, demanding_a] [] =
     Inr \<lparr>objective = objective_of [''Aquatica'', ''Magic Kingdom''] [1],
          constraints =
            [Constr (Constraint_1 1)
               (lpSum [park_schedule ''Aquatica'' 1, park_schedule ''Magic Kingdom'' 1]) LE (N 1),
             Constr (Constraint_2 ''Aquatica'') (lpSum [park_schedule ''Aquatica'' 1]) EQ (N 1),
             Constr (Constraint_2 ''Magic Kingdom'') (lpSum [park_schedule ''Magic Kingdom'' 1]) EQ (N 1)]\<rparr>"
    by (simp add: builder_defs plain_park_def demanding_a_def)
  show ?thesis
    using objective_variables [OF b, of "slack_7 ''Aquatica'' ''Magic Kingdom'' 1 1"] b
    by (simp add: plain_park_def demanding_a_def)
qed

text \<open>
  C5. Take a built model and values of the variables that satisfy its hard constraints,
  with every assignment variable at 0 or 1. The schedule that the extractor reports from
  these values names every park exactly once and no day twice: each park has exactly one
  day and each day at most one park.
\<close>

theorem feasible_assignment_gives_valid_schedule:
  assumes "build_model days parks companies = Inr m"
    and "satisfies_hard a m"
    and "binary_x a parks days"
    and "0 \<le> status"
  shows "schedule_invariant parks (extract_solution status (\<lambda>v. Some (a v)) days parks)"
proof -
  have "list_all (\<lambda>p. count_list (map snd (extract_solution status (\<lambda>v. Some (a v)) days parks))
      (name p) = 1) parks"
    unfolding list_all_iff using assms by (intro ballI feasible_schedule_parks)
  moreover have "distinct (map fst (extract_solution status (\<lambda>v. Some (a v)) days parks))"
    using assms by (intro distinct_if_count_le_1 feasible_schedule_days)
  ultimately show ?thesis
    unfolding schedule_invariant_def ..
qed

theorem feasible_assignment_gives_valid_schedule_witness:
  "satisfies_hard one_park_a_day
     \<lparr>objective = objective_of [''Magic Kingdom'', ''Epcot''] [1, 2],
      constraints =
        [Constr (Constraint_1 1)
           (lpSum [park_schedule ''Magic Kingdom'' 1, park_schedule ''Epcot'' 1]) LE (N 1),
         Constr (Constraint_1 2)
           (lpSum [park_schedule ''Magic Kingdom'' 2, park_schedule ''Epcot'' 2]) LE (N 1),
         Constr (Constraint_2 ''Magic Kingdom'')
           (lpSum [park_schedule ''Magic Kingdom'' 1, park_schedule ''Magic Kingdom'' 2]) EQ (N 1),
         Constr (Constraint_2 ''Epcot'')
           (lpSum [park_schedule ''Epcot'' 1, park_schedule ''Epcot'' 2]) EQ (N 1)]\<rparr> \<and>
   binary_x one_park_a_day [disney_a, disney_b] [1, 2] \<and>
   extract_solution 1 (\<lambda>v. Some (one_park_a_day v)) [1, 2] [disney_a, disney_b] =
     [(1, ''Magic Kingdom''), (2, ''Epcot'')] \<and>
   schedule_invariant [disney_a, disney_b] [(1, ''Magic Kingdom''), (2, ''Epcot'')]"
proof -
  let ?m = "\<lparr>objective = objective_of [''Magic Kingdom'', ''Epcot''] [1, 2],
      constraints =
        [Constr (Constraint_1 1)
           (lpSum [park_schedule ''Magic Kingdom'' 1, park_schedule ''Epcot'' 1]) LE (N 1),
         Constr (Constraint_1 2)
           (lpSum [park_schedule ''Magic Kingdom'' 2, park_schedule ''Epcot'' 2]) LE (N 1),
         Constr (Constraint_2 ''Magic Kingdom'')
           (lpSum [park_schedule ''Magic Kingdom'' 1, park_schedule ''Magic Kingdom'' 2]) EQ (N 1),
         Constr (Constraint_2 ''Epcot'')
           (lpSum [park_schedule ''Epcot'' 1, park_schedule ''Epcot'' 2]) EQ (N 1)]\<rparr>"
  have b: "build_model [1, 2] [disney_a, disney_b] [] = Inr ?m"
    by (simp add: build_model_def Let_def constraint_1_def constraint_2_def constraint_3_def
        constraint_4_def constraint_5_def constraint_6_def constraint_7_def constraint_8_def
        pair_7_def pair_8_def variables_def slack_variables_6_def slack_variables_7_def
        disney_a_def disney_b_def)
  have s: "satisfies_hard one_park_a_day ?m"
    by (simp add: satisfies_hard_def hard_def one_park_a_day_def)
  have x: "binary_x one_park_a_day [disney_a, disney_b] [1, 2]"
    by (simp add: binary_x_def one_park_a_day_def disney_a_def disney_b_def)
  have e: "extract_solution 1 (\<lambda>v. Some (one_park_a_day v)) [1, 2] [disney_a, disney_b] =
     [(1, ''Magic Kingdom''), (2, ''Epcot'')]"
    by (simp add: extract_solution_def truthy_def one_park_a_day_def disney_a_def disney_b_def)
  have st: "(0::int) \<le> 1" by simp
  show ?thesis
    using feasible_assignment_gives_valid_schedule [OF b s x st] s x e by simp
qed

text \<open>
  C6. With more parks than days the constraints of rules 1 and 2 of the built model
  contradict each other, whatever the values of the variables, integral or not. When the
  solver answers with the status \<^verbatim>\<open>Infeasible\<close>, which pulp numbers \<open>-1\<close>, the run
  prints no schedule.
\<close>

theorem more_parks_than_days_is_infeasible:
  assumes "length days < length parks"
    and "build_model days parks companies = Inr m"
    and "fst (solve m) = - 1"
  shows "\<not> satisfies_hard a m \<and>
         optimize_park_scheduling solve days parks companies = Inr (- 1, [])"
proof -
  have "\<not> satisfies_hard a m"
  proof
    assume sat: "satisfies_hard a m"
    have "real (length parks) = sum_list (map (\<lambda>p. (1::real)) parks)"
      by (simp add: sum_list_triv)
    also have "\<dots> = sum_list (map (\<lambda>p. sum_list (map (\<lambda>d. a (park_schedule (name p) d)) days)) parks)"
      using hard_rule_2 [OF assms(2) sat] by (intro arg_cong [of _ _ sum_list] map_cong) simp_all
    also have "\<dots> = sum_list (map (\<lambda>d. sum_list (map (\<lambda>p. a (park_schedule (name p) d)) parks)) days)"
      by (rule sum_list_swap)
    also have "\<dots> \<le> sum_list (map (\<lambda>d. (1::real)) days)"
      using hard_rule_1 [OF assms(2) sat] by (intro sum_list_mono) (simp add: comp_def)
    also have "\<dots> = real (length days)"
      by (simp add: sum_list_triv)
    finally show False using assms(1) by simp
  qed
  moreover have "optimize_park_scheduling solve days parks companies = Inr (- 1, [])"
    using assms(2,3) unfolding optimize_park_scheduling_def
    by (cases "solve m") (simp add: extract_solution_def)
  ultimately show ?thesis ..
qed

theorem more_parks_than_days_is_infeasible_witness:
  "length [1::int] < length [plain_park, demanding_a] \<and>
   \<not> satisfies_hard all_zero
       \<lparr>objective = objective_of [''Aquatica'', ''Magic Kingdom''] [1],
        constraints =
          [Constr (Constraint_1 1)
             (lpSum [park_schedule ''Aquatica'' 1, park_schedule ''Magic Kingdom'' 1]) LE (N 1),
           Constr (Constraint_2 ''Aquatica'') (lpSum [park_schedule ''Aquatica'' 1]) EQ (N 1),
           Constr (Constraint_2 ''Magic Kingdom'') (lpSum [park_schedule ''Magic Kingdom'' 1]) EQ (N 1)]\<rparr> \<and>
   optimize_park_scheduling reports_infeasible [1] [plain_park, demanding_a] [] = Inr (- 1, [])"
proof -
  have b: "build_model [1] [plain_park, demanding_a] [] =
     Inr \<lparr>objective = objective_of [''Aquatica'', ''Magic Kingdom''] [1],
          constraints =
            [Constr (Constraint_1 1)
               (lpSum [park_schedule ''Aquatica'' 1, park_schedule ''Magic Kingdom'' 1]) LE (N 1),
             Constr (Constraint_2 ''Aquatica'') (lpSum [park_schedule ''Aquatica'' 1]) EQ (N 1),
             Constr (Constraint_2 ''Magic Kingdom'') (lpSum [park_schedule ''Magic Kingdom'' 1]) EQ (N 1)]\<rparr>"
    by (simp add: build_model_def Let_def constraint_1_def constraint_2_def constraint_3_def
        constraint_4_def constraint_5_def constraint_6_def constraint_7_def constraint_8_def
        pair_7_def pair_8_def variables_def slack_variables_6_def slack_variables_7_def
        plain_park_def demanding_a_def)
  have l: "length [1::int] < length [plain_park, demanding_a]" by simp
  have s: "fst (reports_infeasible m) = - 1" for m
    by (simp add: reports_infeasible_def)
  show ?thesis
    using more_parks_than_days_is_infeasible [OF l b s, of all_zero] l by simp
qed

text \<open>
  C7. In a built model the constraints of rule 7 are exactly these: for every two
  demanding parks, the first before the second in the list, and every day \<open>d1\<close> of the
  list whose successor is in the list too, the two inequalities of the two temporal
  orders, both relaxed by the slack variable at \<open>(d1, d1 + 1)\<close>. So none is built for a
  park that is not demanding or for days that do not follow each other.
\<close>

theorem consecutive_demanding_constraints:
  assumes "build_model days parks companies = Inr m"
  shows "c \<in> set (constraints m) \<and> rule_number (label c) = 7 \<longleftrightarrow>
     (\<exists>i j d1. demanding_pair parks i j \<and> d1 \<in> set days \<and> d1 + 1 \<in> set days \<and>
        (c = Constr (Constraint_7 (name (parks ! i)) (name (parks ! j)) d1 (d1 + 1))
               (Add (V (park_schedule (name (parks ! i)) d1))
                    (V (park_schedule (name (parks ! j)) (d1 + 1)))) LE
               (Add (N 1) (V (slack_7 (name (parks ! i)) (name (parks ! j)) d1 (d1 + 1)))) \<or>
         c = Constr (Constraint_7 (name (parks ! i)) (name (parks ! j)) (d1 + 1) d1)
               (Add (V (park_schedule (name (parks ! i)) (d1 + 1)))
                    (V (park_schedule (name (parks ! j)) d1))) LE
               (Add (N 1) (V (slack_7 (name (parks ! i)) (name (parks ! j)) d1 (d1 + 1))))))"
  (is "?L \<longleftrightarrow> ?R")
proof
  assume ?L
  then obtain d1 i j where d1: "d1 \<in> set (butlast days)" and p: "demanding_pair parks i j"
    and c: "c \<in> set (rule_7 (name (parks ! i)) (name (parks ! j)) d1)"
    unfolding rule_7_constraints [OF assms] by blast
  have "d1 \<in> set days" using d1 by (rule in_set_butlastD)
  moreover have "d1 + 1 \<in> set days"
    using assms p d1 by (rule build_model_successors)
  ultimately show ?R
    using p c unfolding rule_7_def by auto
next
  assume ?R
  then obtain i j d1 where p: "demanding_pair parks i j"
    and d1: "d1 \<in> set days" "d1 + 1 \<in> set days"
    and c: "c \<in> set (rule_7 (name (parks ! i)) (name (parks ! j)) d1)"
    unfolding rule_7_def by auto
  have "d1 \<in> set (butlast days)"
    using build_model_successors [OF assms p] d1 by (rule successor_closed_butlast)
  then show ?L
    unfolding rule_7_constraints [OF assms] using p c by blast
qed

theorem consecutive_demanding_constraints_witness:
  "constraints (projr (build_model [1, 2] [demanding_a, demanding_b] [])) =
     [Constr (Constraint_1 1)
        (lpSum [park_schedule ''Magic Kingdom'' 1, park_schedule ''Hollywood Studios'' 1]) LE (N 1),
      Constr (Constraint_1 2)
        (lpSum [park_schedule ''Magic Kingdom'' 2, park_schedule ''Hollywood Studios'' 2]) LE (N 1),
      Constr (Constraint_2 ''Magic Kingdom'')
        (lpSum [park_schedule ''Magic Kingdom'' 1, park_schedule ''Magic Kingdom'' 2]) EQ (N 1),
      Constr (Constraint_2 ''Hollywood Studios'')
        (lpSum [park_schedule ''Hollywood Studios'' 1, park_schedule ''Hollywood Studios'' 2]) EQ (N 1),
      Constr (Constraint_7 ''Magic Kingdom'' ''Hollywood Studios'' 1 2)
        (Add (V (park_schedule ''Magic Kingdom'' 1)) (V (park_schedule ''Hollywood Studios'' 2))) LE
        (Add (N 1) (V (slack_7 ''Magic Kingdom'' ''Hollywood Studios'' 1 2))),
      Constr (Constraint_7 ''Magic Kingdom'' ''Hollywood Studios'' 2 1)
        (Add (V (park_schedule ''Magic Kingdom'' 2)) (V (park_schedule ''Hollywood Studios'' 1))) LE
        (Add (N 1) (V (slack_7 ''Magic Kingdom'' ''Hollywood Studios'' 1 2)))]
   \<and> (\<exists>i j d1. demanding_pair [demanding_a, demanding_b] i j \<and>
         d1 \<in> set [1, 2] \<and> d1 + 1 \<in> set [1, 2] \<and>
         ''Magic Kingdom'' = name ([demanding_a, demanding_b] ! i) \<and>
         ''Hollywood Studios'' = name ([demanding_a, demanding_b] ! j) \<and> d1 = 1)"
proof -
  let ?c = "Constr (Constraint_7 ''Magic Kingdom'' ''Hollywood Studios'' 1 2)
        (Add (V (park_schedule ''Magic Kingdom'' 1)) (V (park_schedule ''Hollywood Studios'' 2))) LE
        (Add (N 1) (V (slack_7 ''Magic Kingdom'' ''Hollywood Studios'' 1 2)))"
  have b: "build_model [1, 2] [demanding_a, demanding_b] [] =
    Inr \<lparr>objective = objective_of [''Magic Kingdom'', ''Hollywood Studios''] [1, 2],
         constraints =
     [Constr (Constraint_1 1)
        (lpSum [park_schedule ''Magic Kingdom'' 1, park_schedule ''Hollywood Studios'' 1]) LE (N 1),
      Constr (Constraint_1 2)
        (lpSum [park_schedule ''Magic Kingdom'' 2, park_schedule ''Hollywood Studios'' 2]) LE (N 1),
      Constr (Constraint_2 ''Magic Kingdom'')
        (lpSum [park_schedule ''Magic Kingdom'' 1, park_schedule ''Magic Kingdom'' 2]) EQ (N 1),
      Constr (Constraint_2 ''Hollywood Studios'')
        (lpSum [park_schedule ''Hollywood Studios'' 1, park_schedule ''Hollywood Studios'' 2]) EQ (N 1),
      ?c,
      Constr (Constraint_7 ''Magic Kingdom'' ''Hollywood Studios'' 2 1)
        (Add (V (park_schedule ''Magic Kingdom'' 2)) (V (park_schedule ''Hollywood Studios'' 1))) LE
        (Add (N 1) (V (slack_7 ''Magic Kingdom'' ''Hollywood Studios'' 1 2)))]\<rparr>"
    by (simp add: build_model_def Let_def constraint_1_def constraint_2_def constraint_3_def
        constraint_4_def constraint_5_def constraint_6_def constraint_7_def constraint_8_def
        pair_7_def pair_8_def variables_def slack_variables_6_def slack_variables_7_def
        demanding_a_def demanding_b_def)
  have "\<exists>i j d1. demanding_pair [demanding_a, demanding_b] i j \<and>
        d1 \<in> set [1, 2] \<and> d1 + 1 \<in> set [1, 2] \<and>
        (?c = Constr (Constraint_7 (name ([demanding_a, demanding_b] ! i)) (name ([demanding_a, demanding_b] ! j)) d1 (d1 + 1))
               (Add (V (park_schedule (name ([demanding_a, demanding_b] ! i)) d1))
                    (V (park_schedule (name ([demanding_a, demanding_b] ! j)) (d1 + 1)))) LE
               (Add (N 1) (V (slack_7 (name ([demanding_a, demanding_b] ! i)) (name ([demanding_a, demanding_b] ! j)) d1 (d1 + 1)))) \<or>
         ?c = Constr (Constraint_7 (name ([demanding_a, demanding_b] ! i)) (name ([demanding_a, demanding_b] ! j)) (d1 + 1) d1)
               (Add (V (park_schedule (name ([demanding_a, demanding_b] ! i)) (d1 + 1)))
                    (V (park_schedule (name ([demanding_a, demanding_b] ! j)) d1))) LE
               (Add (N 1) (V (slack_7 (name ([demanding_a, demanding_b] ! i)) (name ([demanding_a, demanding_b] ! j)) d1 (d1 + 1)))))"
    using consecutive_demanding_constraints [OF b, of ?c] by simp
  then have "\<exists>i j d1. demanding_pair [demanding_a, demanding_b] i j \<and>
         d1 \<in> set [1, 2] \<and> d1 + 1 \<in> set [1, 2] \<and>
         ''Magic Kingdom'' = name ([demanding_a, demanding_b] ! i) \<and>
         ''Hollywood Studios'' = name ([demanding_a, demanding_b] ! j) \<and> d1 = 1"
    by (elim ex_forward) auto
  then show ?thesis using b by simp
qed

text \<open>
  C8. Let the days be strictly increasing and the names of the parks and of the
  companies be unique, as the data model has them. For a company of the list, two of its
  parks (the first before the second in the list) and two days \<open>d1 < d2\<close> of the list, the
  built model holds the window constraint of each temporal order exactly when the
  inclusive span \<open>d2 - d1 + 1\<close> exceeds the company's \<^verbatim>\<open>number_of_days\<close>.
\<close>

theorem company_window_constraints:
  assumes "build_model days parks companies = Inr m"
    and "sorted_wrt (<) days"
    and "distinct (map name parks)"
    and "distinct (map company_c companies)"
    and "c \<in> set companies"
    and "company_pair c parks i j"
    and "d1 \<in> set days" and "d2 \<in> set days" and "d1 < d2"
  shows "(Constr (Constraint_8 (name (parks ! i)) (name (parks ! j)) d1 d2)
            (Add (V (park_schedule (name (parks ! i)) d1)) (V (park_schedule (name (parks ! j)) d2))) LE
            (Add (N 1) (V (slack_8 (name (parks ! i)) (name (parks ! j)) d1 d2)))
            \<in> set (constraints m) \<longleftrightarrow> number_of_days c < (d2 - d1) + 1) \<and>
         (Constr (Constraint_8 (name (parks ! i)) (name (parks ! j)) d2 d1)
            (Add (V (park_schedule (name (parks ! i)) d2)) (V (park_schedule (name (parks ! j)) d1))) LE
            (Add (N 1) (V (slack_8 (name (parks ! i)) (name (parks ! j)) d2 d1)))
            \<in> set (constraints m) \<longleftrightarrow> number_of_days c < (d2 - d1) + 1)"
proof -
  let ?A = "Constr (Constraint_8 (name (parks ! i)) (name (parks ! j)) d1 d2)
            (Add (V (park_schedule (name (parks ! i)) d1)) (V (park_schedule (name (parks ! j)) d2))) LE
            (Add (N 1) (V (slack_8 (name (parks ! i)) (name (parks ! j)) d1 d2)))"
  let ?B = "Constr (Constraint_8 (name (parks ! i)) (name (parks ! j)) d2 d1)
            (Add (V (park_schedule (name (parks ! i)) d2)) (V (park_schedule (name (parks ! j)) d1))) LE
            (Add (N 1) (V (slack_8 (name (parks ! i)) (name (parks ! j)) d2 d1)))"
  have mem: "x \<in> set (constraints m) \<longleftrightarrow> number_of_days c < (d2 - d1) + 1"
    if x: "x \<in> set (pair_8 (parks ! i) (parks ! j) d1 d2)" for x
  proof -
    have "rule_number (label x) = 8"
      using x unfolding pair_8_def by auto
    then have "x \<in> set (constraints m) \<longleftrightarrow> x \<in> set (constraint_8 days parks companies)"
      using rule_8_constraints [OF assms(1), of x] by simp
    also have "\<dots> \<longleftrightarrow> number_of_days c < (d2 - d1) + 1"
      using assms(2-9) x by (rule pair_8_in_constraint_8_iff)
    finally show ?thesis .
  qed
  have "?A \<in> set (pair_8 (parks ! i) (parks ! j) d1 d2)"
    and "?B \<in> set (pair_8 (parks ! i) (parks ! j) d1 d2)"
    unfolding pair_8_def by simp_all
  then show ?thesis
    using mem by blast
qed

theorem company_window_constraints_witness:
  "sorted_wrt (<) [1::int, 2, 3] \<and>
   distinct (map name [disney_a, disney_b]) \<and>
   distinct (map company_c [disney]) \<and>
   company_pair disney [disney_a, disney_b] 0 1 \<and>
   number_of_days disney < (3 - 1) + 1 \<and>
   Constr (Constraint_8 ''Magic Kingdom'' ''Epcot'' 1 3)
     (Add (V (park_schedule ''Magic Kingdom'' 1)) (V (park_schedule ''Epcot'' 3))) LE
     (Add (N 1) (V (slack_8 ''Magic Kingdom'' ''Epcot'' 1 3)))
     \<in> set (constraints (projr (build_model [1, 2, 3] [disney_a, disney_b] [disney]))) \<and>
   Constr (Constraint_8 ''Magic Kingdom'' ''Epcot'' 3 1)
     (Add (V (park_schedule ''Magic Kingdom'' 3)) (V (park_schedule ''Epcot'' 1))) LE
     (Add (N 1) (V (slack_8 ''Magic Kingdom'' ''Epcot'' 3 1)))
     \<in> set (constraints (projr (build_model [1, 2, 3] [disney_a, disney_b] [disney])))"
proof -
  have ok: "keys_ok [1, 2, 3] [disney_a, disney_b]"
    by (simp add: keys_ok_def disney_a_def disney_b_def)
  then have "\<not> isl (build_model [1, 2, 3] [disney_a, disney_b] [disney])"
    by (simp add: build_model_isl)
  then have b: "build_model [1, 2, 3] [disney_a, disney_b] [disney] =
      Inr (projr (build_model [1, 2, 3] [disney_a, disney_b] [disney]))"
    by simp
  have h: "sorted_wrt (<) [1::int, 2, 3]" "distinct (map name [disney_a, disney_b])"
    "distinct (map company_c [disney])" "disney \<in> set [disney]"
    "company_pair disney [disney_a, disney_b] 0 1"
    "(1::int) \<in> set [1, 2, 3]" "(3::int) \<in> set [1, 2, 3]" "(1::int) < 3"
    by (simp_all add: company_pair_def disney_def disney_a_def disney_b_def)
  show ?thesis
    using company_window_constraints [OF b h] h
    by (simp add: disney_def disney_a_def disney_b_def)
qed



text \<open>
  C10. With two demanding parks, a day at a non-final position of the day list whose
  successor is not in the list makes the loop of constraint 7 look up a missing key, and
  the construction of the model ends with \<^verbatim>\<open>KeyError\<close>. The day list need not
  be increasing for this.
\<close>

theorem noncontiguous_days_raise_KeyError:
  assumes "2 \<le> length (filter demanding parks)"
    and "d \<in> set (butlast days)"
    and "d + 1 \<notin> set days"
  shows "constraint_7 (map name parks) days parks = Inl KeyError \<and>
         build_model days parks companies = Inl KeyError"
proof -
  have pair: "\<exists>i j. demanding_pair parks i j"
    using assms(1) by (simp only: demanding_pair_iff)
  have "isl (constraint_7 (map name parks) days parks)"
    unfolding constraint_7_isl [OF names_ok] using pair assms(2,3) by blast
  moreover have "\<not> keys_ok days parks"
    unfolding keys_ok_def list_all_iff using assms by auto
  then have "isl (build_model days parks companies)"
    by (simp add: build_model_isl)
  ultimately show ?thesis
    by (simp only: isl_KeyError)
qed

theorem noncontiguous_days_raise_KeyError_witness:
  "2 \<le> length (filter demanding [demanding_a, demanding_b]) \<and>
   (1::int) \<in> set (butlast [1, 3]) \<and> (1::int) + 1 \<notin> set [1, 3] \<and>
   constraint_7 (map name [demanding_a, demanding_b]) [1, 3] [demanding_a, demanding_b] = Inl KeyError \<and>
   build_model [1, 3] [demanding_a, demanding_b] [] = Inl KeyError"
  using noncontiguous_days_raise_KeyError [of "[demanding_a, demanding_b]" 1 "[1, 3]" "[]"]
  by (simp add: demanding_a_def demanding_b_def)

end
